theory Spec2Isabelle
  imports Main
begin

section \<open>Python string operations used by the parser\<close>

text \<open>
  Strings are lists of characters; a character stands for the code point of the same
  number, so the model covers the spec strings whose code points are below 256.

  \<^verbatim>\<open>s.partition(sep)\<close> for a one-character separator: the text before the first
  occurrence, the separator, the text after it; without an occurrence the whole string
  and two empty strings.
\<close>

fun partition_str :: "char \<Rightarrow> string \<Rightarrow> string \<times> string \<times> string" where
  "partition_str sep [] = ([], [], [])"
| "partition_str sep (c # cs) =
     (if c = sep then ([], [sep], cs)
      else (case partition_str sep cs of (h, m, t) \<Rightarrow> (c # h, m, t)))"

text \<open>
  \<^verbatim>\<open>s.rpartition(sep)\<close>: the same at the last occurrence; without an occurrence two
  empty strings and then the whole string.
\<close>

definition rpartition :: "char \<Rightarrow> string \<Rightarrow> string \<times> string \<times> string" where
  "rpartition sep s =
     (case partition_str sep (rev s) of
        (h, m, t) \<Rightarrow> if m = [] then ([], [], s) else (rev t, m, rev h))"

text \<open>\<^verbatim>\<open>s.removesuffix(suf)\<close>.\<close>

definition removesuffix :: "string \<Rightarrow> string \<Rightarrow> string" where
  "removesuffix suf s =
     (if suf \<noteq> [] \<and> length suf \<le> length s \<and> drop (length s - length suf) s = suf
      then take (length s - length suf) s else s)"

text \<open>
  \<^verbatim>\<open>s.lower()\<close> on code points below 256: the letters A to Z and the capital letters
  of the Latin-1 block (0xC0 to 0xDE without the multiplication sign 0xD7) move up by 32.
\<close>

definition lower_char :: "char \<Rightarrow> char" where
  "lower_char c =
     (let n = (of_char c :: nat)
      in if (65 \<le> n \<and> n \<le> 90) \<or> (192 \<le> n \<and> n \<le> 222 \<and> n \<noteq> 215)
         then char_of (n + 32) else c)"

definition lower :: "string \<Rightarrow> string" where
  "lower s = map lower_char s"

text \<open>
  \<^verbatim>\<open>int(s)\<close> in base ten: white space around the literal is dropped, one sign is
  allowed, then decimal digits follow, where a single underscore may stand between two
  digits. Anything else raises ValueError, which is \<open>None\<close> here. The interpreter's
  optional limit on the number of digits of a literal is not part of the model.
\<close>

definition is_space :: "char \<Rightarrow> bool" where
  "is_space c =
     (c \<in> set [CHR 0x09, CHR 0x0A, CHR 0x0B, CHR 0x0C, CHR 0x0D, CHR 0x20, CHR 0x85, CHR 0xA0])"

definition is_digit :: "char \<Rightarrow> bool" where
  "is_digit c = (c \<in> set ''0123456789'')"

definition digit_val :: "char \<Rightarrow> int" where
  "digit_val c = of_char c - 48"

fun int_digits :: "int \<Rightarrow> string \<Rightarrow> int option" where
  "int_digits acc [] = Some acc"
| "int_digits acc (c # cs) =
     (if is_digit c then int_digits (10 * acc + digit_val c) cs
      else if c = CHR ''_'' then
        (case cs of
           [] \<Rightarrow> None
         | d # ds \<Rightarrow> if is_digit d then int_digits (10 * acc + digit_val d) ds else None)
      else None)"

definition int_unsigned :: "string \<Rightarrow> int option" where
  "int_unsigned s =
     (case s of
        [] \<Rightarrow> None
      | c # cs \<Rightarrow> if is_digit c then int_digits (digit_val c) cs else None)"

definition strip_space :: "string \<Rightarrow> string" where
  "strip_space s = rev (dropWhile is_space (rev (dropWhile is_space s)))"

definition int_py :: "string \<Rightarrow> int option" where
  "int_py s =
     (case strip_space s of
        [] \<Rightarrow> None
      | c # cs \<Rightarrow>
          if c = CHR ''-'' then map_option uminus (int_unsigned cs)
          else if c = CHR ''+'' then int_unsigned cs
          else int_unsigned (c # cs))"

section \<open>The variants and their registry\<close>

text \<open>
  The subclasses of \<^verbatim>\<open>ProxyMode\<close>, in the order in which the module defines them.
  \<^verbatim>\<open>ProxyMode\<close> itself is abstract; a parse entry point is either \<^verbatim>\<open>ProxyMode.parse\<close>
  or the \<^verbatim>\<open>parse\<close> of one subclass.
\<close>

datatype variant =
  RegularMode | TransparentMode | UpstreamMode | ReverseMode | Socks5Mode | DnsMode | DtlsMode

datatype pclass = ProxyMode | Sub variant

fun class_name :: "variant \<Rightarrow> string" where
  "class_name RegularMode = ''RegularMode''"
| "class_name TransparentMode = ''TransparentMode''"
| "class_name UpstreamMode = ''UpstreamMode''"
| "class_name ReverseMode = ''ReverseMode''"
| "class_name Socks5Mode = ''Socks5Mode''"
| "class_name DnsMode = ''DnsMode''"
| "class_name DtlsMode = ''DtlsMode''"

text \<open>\<^verbatim>\<open>cls.type\<close>, as \<^verbatim>\<open>__init_subclass__\<close> derives it from the class name.\<close>

definition type_name :: "variant \<Rightarrow> string" where
  "type_name v = lower (removesuffix ''Mode'' (class_name v))"

definition subclasses :: "variant list" where
  "subclasses =
     [RegularMode, TransparentMode, UpstreamMode, ReverseMode, Socks5Mode, DnsMode, DtlsMode]"

text \<open>The dictionary \<^verbatim>\<open>ProxyMode.__types\<close> once every subclass has registered itself.\<close>

definition types :: "string \<rightharpoonup> variant" where
  "types = map_of (map (\<lambda>v. (type_name v, v)) subclasses)"

fun default_port :: "variant \<Rightarrow> int" where
  "default_port Socks5Mode = 1080"
| "default_port DnsMode = 53"
| "default_port DtlsMode = 8084"
| "default_port _ = 8080"

datatype transport = Tcp | Udp

fun transport_protocol :: "variant \<Rightarrow> transport" where
  "transport_protocol DnsMode = Udp"
| "transport_protocol DtlsMode = Udp"
| "transport_protocol _ = Tcp"

text \<open>
  \<^verbatim>\<open>issubclass(mode_cls, cls)\<close>: every variant derives from \<^verbatim>\<open>ProxyMode\<close> directly,
  and no variant derives from another.
\<close>

fun issubclass :: "variant \<Rightarrow> pclass \<Rightarrow> bool" where
  "issubclass v ProxyMode = True"
| "issubclass v (Sub w) = (v = w)"

section \<open>Instances and errors\<close>

text \<open>
  An instance carries its class, the four dataclass fields, and the attributes
  \<^verbatim>\<open>scheme\<close> and \<^verbatim>\<open>address\<close> that some validators set (\<open>None\<close>: never set).
\<close>

record proxy_mode =
  mode_cls :: variant
  full_spec :: string
  data :: string
  custom_listen_host :: "string option"
  custom_listen_port :: "int option"
  scheme :: "string option"
  address :: "(string \<times> int) option"

text \<open>
  The exceptions of the module, named as the specification names them. All but the last
  are \<^verbatim>\<open>ValueError\<close>; \<open>FrozenStateViolation\<close> is the \<^verbatim>\<open>RuntimeError\<close> of
  \<^verbatim>\<open>set_state\<close>. \<open>InvalidScheme\<close> records the variant whose validator raised it,
  \<open>ResolverError\<close> is a failure of the address-spec resolver, passed on as it is.
\<close>

datatype error =
    InvalidPort string
  | UnknownMode
  | WrongModeCategory string pclass
  | UnexpectedArguments
  | InvalidScheme variant
  | InvalidDnsMode
  | InvalidDtlsMode
  | ResolverError string
  | FrozenStateViolation

text \<open>
  The address-spec resolver \<^verbatim>\<open>server_spec.parse(server_spec, default_scheme)\<close> is
  imported from another module. The parser takes it as a parameter: it either fails with
  a message or returns \<open>(scheme, (host, port))\<close>.
\<close>

type_synonym resolver = "string \<Rightarrow> string \<Rightarrow> string + (string \<times> (string \<times> int))"

section \<open>Validators\<close>

definition check_empty :: "string \<Rightarrow> error + unit" where
  "check_empty d = (if d \<noteq> [] then Inl UnexpectedArguments else Inr ())"

definition regular_post_init :: "proxy_mode \<Rightarrow> error + proxy_mode" where
  "regular_post_init self = (case check_empty (data self) of Inl e \<Rightarrow> Inl e | Inr _ \<Rightarrow> Inr self)"

definition upstream_post_init :: "resolver \<Rightarrow> proxy_mode \<Rightarrow> error + proxy_mode" where
  "upstream_post_init rs self =
     (case rs (data self) ''http'' of
        Inl msg \<Rightarrow> Inl (ResolverError msg)
      | Inr (sch, addr) \<Rightarrow>
          if sch \<noteq> ''http'' \<and> sch \<noteq> ''https'' then Inl (InvalidScheme UpstreamMode)
          else Inr (self\<lparr>scheme := Some sch, address := Some addr\<rparr>))"

definition reverse_post_init :: "resolver \<Rightarrow> proxy_mode \<Rightarrow> error + proxy_mode" where
  "reverse_post_init rs self =
     (case rs (data self) ''https'' of
        Inl msg \<Rightarrow> Inl (ResolverError msg)
      | Inr (sch, addr) \<Rightarrow>
          if sch \<noteq> ''http'' \<and> sch \<noteq> ''https'' \<and> sch \<noteq> ''tcp'' \<and> sch \<noteq> ''tls''
          then Inl (InvalidScheme ReverseMode)
          else Inr (self\<lparr>scheme := Some sch, address := Some addr\<rparr>))"

definition dns_post_init :: "resolver \<Rightarrow> proxy_mode \<Rightarrow> error + proxy_mode" where
  "dns_post_init rs self =
     (if data self \<in> set [[], ''resolve-local'', ''transparent''] then Inr self
      else (case partition_str CHR '':'' (data self) of
        (m, _, server) \<Rightarrow>
          if m \<noteq> ''reverse'' then Inl InvalidDnsMode
          else (case rs server ''dns'' of
                  Inl msg \<Rightarrow> Inl (ResolverError msg)
                | Inr (sch, addr) \<Rightarrow>
                    if sch \<noteq> ''dns'' then Inl (InvalidScheme DnsMode)
                    else Inr (self\<lparr>scheme := Some sch, address := Some addr\<rparr>))))"

definition dtls_post_init :: "resolver \<Rightarrow> proxy_mode \<Rightarrow> error + proxy_mode" where
  "dtls_post_init rs self =
     (case partition_str CHR '':'' (data self) of
        (m, _, server) \<Rightarrow>
          if m \<noteq> ''reverse'' then Inl InvalidDtlsMode
          else (case rs server ''dtls'' of
                  Inl msg \<Rightarrow> Inl (ResolverError msg)
                | Inr (sch, addr) \<Rightarrow>
                    if sch \<noteq> ''dtls'' then Inl (InvalidScheme DtlsMode)
                    else Inr (self\<lparr>scheme := Some sch, address := Some addr\<rparr>)))"

text \<open>\<^verbatim>\<open>__post_init__\<close>, dispatched on the class of the instance.\<close>

fun post_init :: "resolver \<Rightarrow> variant \<Rightarrow> proxy_mode \<Rightarrow> error + proxy_mode" where
  "post_init rs RegularMode self = regular_post_init self"
| "post_init rs TransparentMode self = regular_post_init self"
| "post_init rs UpstreamMode self = upstream_post_init rs self"
| "post_init rs ReverseMode self = reverse_post_init rs self"
| "post_init rs Socks5Mode self = regular_post_init self"
| "post_init rs DnsMode self = dns_post_init rs self"
| "post_init rs DtlsMode self = dtls_post_init rs self"

text \<open>
  The call \<^verbatim>\<open>mode_cls(full_spec=..., data=..., custom_listen_host=...,
  custom_listen_port=...)\<close>: the generated initialiser stores the four fields and then
  runs the validator.
\<close>

definition construct ::
  "resolver \<Rightarrow> variant \<Rightarrow> string \<Rightarrow> string \<Rightarrow> string option \<Rightarrow> int option \<Rightarrow> error + proxy_mode" where
  "construct rs c spec d host port =
     post_init rs c
       \<lparr>mode_cls = c, full_spec = spec, data = d, custom_listen_host = host,
        custom_listen_port = port, scheme = None, address = None\<rparr>"

section \<open>The parser\<close>

text \<open>Lines 83 to 86 of \<^verbatim>\<open>parse\<close>: the head and the listen segment of a spec.\<close>

definition split_listen :: "string \<Rightarrow> string \<times> string" where
  "split_listen spec =
     (case rpartition CHR ''@'' spec of
        (head, _, listen_at) \<Rightarrow> if head = [] then (listen_at, []) else (head, listen_at))"

text \<open>Lines 90 to 104: host and port of the listen segment.\<close>

definition split_host_port :: "string \<Rightarrow> string option \<times> string" where
  "split_host_port listen_at =
     (if CHR '':'' \<in> set listen_at
      then (case rpartition CHR '':'' listen_at of (host, _, port_str) \<Rightarrow> (Some host, port_str))
      else (None, listen_at))"

definition listen_addr :: "string \<Rightarrow> error + (string option \<times> int option)" where
  "listen_addr listen_at =
     (if listen_at \<noteq> [] then
        (case split_host_port listen_at of
           (host, port_str) \<Rightarrow>
             (case int_py port_str of
                None \<Rightarrow> Inl (InvalidPort port_str)
              | Some port \<Rightarrow>
                  if port < 0 \<or> 65535 < port then Inl (InvalidPort port_str)
                  else Inr (host, Some port)))
      else Inr (None, None))"

text \<open>The body of \<^verbatim>\<open>parse(cls, spec)\<close>, without the cache around it.\<close>

definition parse :: "resolver \<Rightarrow> pclass \<Rightarrow> string \<Rightarrow> error + proxy_mode" where
  "parse rs cls spec =
     (case split_listen spec of
        (head, listen_at) \<Rightarrow>
          (case partition_str CHR '':'' head of
             (mode, _, d) \<Rightarrow>
               (case listen_addr listen_at of
                  Inl e \<Rightarrow> Inl e
                | Inr (host, port) \<Rightarrow>
                    (case types (lower mode) of
                       None \<Rightarrow> Inl UnknownMode
                     | Some c \<Rightarrow>
                         if \<not> issubclass c cls then Inl (WrongModeCategory mode cls)
                         else construct rs c spec d host port))))"

section \<open>Accessors and the state codec\<close>

definition listen_host :: "proxy_mode \<Rightarrow> string option \<Rightarrow> string" where
  "listen_host self dflt =
     (case custom_listen_host self of
        Some h \<Rightarrow> h
      | None \<Rightarrow> (case dflt of Some d \<Rightarrow> d | None \<Rightarrow> []))"

definition listen_port :: "proxy_mode \<Rightarrow> int option \<Rightarrow> int" where
  "listen_port self dflt =
     (case custom_listen_port self of
        Some p \<Rightarrow> p
      | None \<Rightarrow> (case dflt of Some d \<Rightarrow> d | None \<Rightarrow> default_port (mode_cls self)))"

definition resolve_local :: "proxy_mode \<Rightarrow> bool" where
  "resolve_local self = (data self \<in> set [[], ''resolve-local''])"

definition get_state :: "proxy_mode \<Rightarrow> string" where
  "get_state self = full_spec self"

text \<open>
  \<^verbatim>\<open>set_state\<close> returns nothing or raises; the second component is the receiver as
  the call leaves it.
\<close>

definition set_state :: "proxy_mode \<Rightarrow> string \<Rightarrow> (error + unit) \<times> proxy_mode" where
  "set_state self state =
     (if state \<noteq> full_spec self then (Inl FrozenStateViolation, self) else (Inr (), self))"

text \<open>
  The generated \<^verbatim>\<open>__eq__\<close> of the dataclass: the same class and equal dataclass fields.
\<close>

definition dataclass_eq :: "proxy_mode \<Rightarrow> proxy_mode \<Rightarrow> bool" where
  "dataclass_eq a b =
     (mode_cls a = mode_cls b \<and> full_spec a = full_spec b \<and> data a = data b \<and>
      custom_listen_host a = custom_listen_host b \<and> custom_listen_port a = custom_listen_port b)"

section \<open>The cache around the parser\<close>

text \<open>
  \<^verbatim>\<open>parse\<close> is a class method wrapped by \<^verbatim>\<open>functools.cache\<close>. The cache builds its
  key from the arguments as the call passes them: the class comes first, and the spec
  follows either as a positional argument, \<^verbatim>\<open>parse("regular")\<close>, or as a keyword
  argument, \<^verbatim>\<open>parse(spec="regular")\<close>; the two ways give different keys. An entry
  holds the instance that the first successful call with that key created; a call that
  raises stores nothing. Instances are told apart by a number, the count of instances
  created before.
\<close>

datatype passing = Positional | Keyword

record parse_cache =
  entries :: "pclass \<times> passing \<times> string \<rightharpoonup> nat \<times> proxy_mode"
  created :: nat

definition empty_cache :: parse_cache where
  "empty_cache = \<lparr>entries = Map.empty, created = 0\<rparr>"

definition cached_parse ::
  "resolver \<Rightarrow> pclass \<Rightarrow> passing \<Rightarrow> string \<Rightarrow> parse_cache \<Rightarrow>
     (error + nat \<times> proxy_mode) \<times> parse_cache" where
  "cached_parse rs cls how spec st =
     (case entries st (cls, how, spec) of
        Some r \<Rightarrow> (Inr r, st)
      | None \<Rightarrow>
          (case parse rs cls spec of
             Inl e \<Rightarrow> (Inl e, st)
           | Inr i \<Rightarrow>
               (Inr (created st, i),
                st\<lparr>entries := (entries st)((cls, how, spec) \<mapsto> (created st, i)),
                   created := Suc (created st)\<rparr>)))"

text \<open>
  \<^verbatim>\<open>from_state(cls, state)\<close> calls \<^verbatim>\<open>ProxyMode.parse(state)\<close>, whatever its class,
  with the state as a positional argument.
\<close>

definition from_state ::
  "resolver \<Rightarrow> pclass \<Rightarrow> string \<Rightarrow> parse_cache \<Rightarrow> (error + nat \<times> proxy_mode) \<times> parse_cache" where
  "from_state rs cls state st = cached_parse rs ProxyMode Positional state st"

text \<open>
  A sequence of parse calls, each given as class, way of passing and spec; the results
  are dropped.
\<close>

fun run_calls ::
  "resolver \<Rightarrow> (pclass \<times> passing \<times> string) list \<Rightarrow> parse_cache \<Rightarrow> parse_cache" where
  "run_calls rs [] st = st"
| "run_calls rs ((cls, how, spec) # cs) st =
     run_calls rs cs (snd (cached_parse rs cls how spec st))"

text \<open>
  The cache is consistent when every entry holds what the parser returns for its key,
  under a number below the count of instances, and no number serves two keys.
\<close>

definition consistent :: "resolver \<Rightarrow> parse_cache \<Rightarrow> bool" where
  "consistent rs st =
     ((\<forall>cls how s n i. entries st (cls, how, s) = Some (n, i) \<longrightarrow>
         parse rs cls s = Inr i \<and> n < created st) \<and>
      (\<forall>k k' n i i'. entries st k = Some (n, i) \<and> entries st k' = Some (n, i') \<longrightarrow> k = k'))"

section \<open>The specification's reading, for comparison\<close>

text \<open>
  The split of step 1 as the specification words it: at the last \<open>@\<close>, and without
  one the head is the whole spec and the listen segment is empty.
\<close>

definition split_last_at :: "string \<Rightarrow> string \<times> string" where
  "split_last_at spec =
     (if CHR ''@'' \<in> set spec
      then (case rpartition CHR ''@'' spec of (head, _, listen_at) \<Rightarrow> (head, listen_at))
      else (spec, []))"

text \<open>
  Modelled from the spec: the Address-Spec Resolver (\<^verbatim>\<open>server_spec.parse\<close>) is not
  among the sources. The specification describes it as parsing a fragment
  \<^verbatim>\<open>[scheme://]host:port\<close> into \<open>(scheme, (host, port))\<close> with a default scheme
  supplied by the caller, and as failing when the fragment is not of that form or the
  port is out of range. It says nothing about which hosts are acceptable, so any
  non-empty host is taken.
\<close>

definition all_digits :: "string \<Rightarrow> bool" where
  "all_digits s = (s \<noteq> [] \<and> list_all is_digit s)"

definition decimal :: "string \<Rightarrow> int" where
  "decimal s = foldl (\<lambda>a c. 10 * a + digit_val c) 0 s"

definition resolve :: resolver where
  "resolve raw default_scheme =
     (case partition_str CHR '':'' raw of
        (pre, _, post) \<Rightarrow>
          (case (if take 2 post = ''//'' then (pre, drop 2 post) else (default_scheme, raw)) of
             (sch, rest) \<Rightarrow>
               (case rpartition CHR '':'' rest of
                  (host, sep, port_str) \<Rightarrow>
                    if sep = [] \<or> host = [] \<or> sch = [] \<or> \<not> all_digits port_str
                    then Inl ''not of the form [scheme://]host:port''
                    else if 65535 < decimal port_str then Inl ''port out of range''
                    else Inr (sch, (host, decimal port_str)))))"

section \<open>Facts about the string operations\<close>

lemma partition_str_absent: "sep \<notin> set s \<Longrightarrow> partition_str sep s = (s, [], [])"
  by (induction s) auto

lemma partition_str_first:
  "sep \<notin> set h \<Longrightarrow> partition_str sep (h @ sep # t) = (h, [sep], t)"
  by (induction h) auto

lemma rpartition_absent: "sep \<notin> set s \<Longrightarrow> rpartition sep s = ([], [], s)"
  by (simp add: rpartition_def partition_str_absent)

lemma rpartition_last:
  assumes "sep \<notin> set t"
  shows "rpartition sep (h @ sep # t) = (h, [sep], t)"
proof -
  have "rev (h @ sep # t) = rev t @ sep # rev h" by simp
  moreover have "sep \<notin> set (rev t)" using assms by simp
  ultimately have "partition_str sep (rev (h @ sep # t)) = (rev t, [sep], rev h)"
    using partition_str_first by metis
  then show ?thesis by (simp add: rpartition_def)
qed

lemma split_at_last:
  assumes "sep \<in> set s"
  shows "\<exists>h t. s = h @ sep # t \<and> sep \<notin> set t"
  using assms by (metis split_list_last)

lemma split_listen_absent: "CHR ''@'' \<notin> set s \<Longrightarrow> split_listen s = (s, [])"
  by (simp add: split_listen_def rpartition_absent)

lemma split_listen_last:
  "CHR ''@'' \<notin> set l \<Longrightarrow> h \<noteq> [] \<Longrightarrow> split_listen (h @ CHR ''@'' # l) = (h, l)"
  by (simp add: split_listen_def rpartition_last)

lemma split_listen_leading:
  assumes "CHR ''@'' \<notin> set l" shows "split_listen (CHR ''@'' # l) = (l, [])"
  using rpartition_last[OF assms, of "[]"] by (simp add: split_listen_def)

lemma split_last_at_last:
  "CHR ''@'' \<notin> set l \<Longrightarrow> split_last_at (h @ CHR ''@'' # l) = (h, l)"
  by (simp add: split_last_at_def rpartition_last)

lemma split_host_port_absent: "CHR '':'' \<notin> set l \<Longrightarrow> split_host_port l = (None, l)"
  by (simp add: split_host_port_def)

lemma split_host_port_last:
  "CHR '':'' \<notin> set p \<Longrightarrow> split_host_port (h @ CHR '':'' # p) = (Some h, p)"
  by (simp add: split_host_port_def rpartition_last)

lemma type_name_simps:
  "type_name RegularMode = ''regular''"
  "type_name TransparentMode = ''transparent''"
  "type_name UpstreamMode = ''upstream''"
  "type_name ReverseMode = ''reverse''"
  "type_name Socks5Mode = ''socks5''"
  "type_name DnsMode = ''dns''"
  "type_name DtlsMode = ''dtls''"
  by (simp_all add: type_name_def removesuffix_def lower_def lower_char_def char_of_def bit_0)

lemma types_eq:
  "types k =
     (if k = ''regular'' then Some RegularMode
      else if k = ''transparent'' then Some TransparentMode
      else if k = ''upstream'' then Some UpstreamMode
      else if k = ''reverse'' then Some ReverseMode
      else if k = ''socks5'' then Some Socks5Mode
      else if k = ''dns'' then Some DnsMode
      else if k = ''dtls'' then Some DtlsMode
      else None)"
  by (simp add: types_def subclasses_def type_name_simps)

lemma types_Some_iff: "types k = Some v \<longleftrightarrow> k = type_name v"
  by (cases v) (auto simp: types_eq type_name_simps split: if_splits)

section \<open>Facts about the parser\<close>

lemma post_init_fields:
  assumes "post_init rs c self = Inr i"
  shows "mode_cls i = mode_cls self \<and> full_spec i = full_spec self \<and> data i = data self \<and>
         custom_listen_host i = custom_listen_host self \<and>
         custom_listen_port i = custom_listen_port self"
  using assms
  by (cases c)
     (auto simp: regular_post_init_def check_empty_def upstream_post_init_def
        reverse_post_init_def dns_post_init_def dtls_post_init_def
        split: if_splits sum.splits prod.splits)

lemma construct_fields:
  assumes "construct rs c spec d host port = Inr i"
  shows "mode_cls i = c \<and> full_spec i = spec \<and> data i = d \<and>
         custom_listen_host i = host \<and> custom_listen_port i = port"
  using post_init_fields[OF assms[unfolded construct_def]] by simp

lemma post_init_no_port_error: "post_init rs c self \<noteq> Inl (InvalidPort p)"
  by (cases c)
     (auto simp: regular_post_init_def check_empty_def upstream_post_init_def
        reverse_post_init_def dns_post_init_def dtls_post_init_def
        split: if_splits sum.splits prod.splits)

lemma parse_unfold:
  assumes "split_listen s = (head, la)" and "partition_str CHR '':'' head = (m, sep, d)"
  shows "parse rs cls s =
           (case listen_addr la of
              Inl e \<Rightarrow> Inl e
            | Inr (host, port) \<Rightarrow>
                (case types (lower m) of
                   None \<Rightarrow> Inl UnknownMode
                 | Some c \<Rightarrow>
                     if \<not> issubclass c cls then Inl (WrongModeCategory m cls)
                     else construct rs c s d host port))"
  using assms by (simp add: parse_def)

lemma parse_Inr_cases:
  assumes "parse rs cls s = Inr i"
  obtains head la m sep d host port c where
    "split_listen s = (head, la)" "partition_str CHR '':'' head = (m, sep, d)"
    "listen_addr la = Inr (host, port)" "types (lower m) = Some c" "issubclass c cls"
    "construct rs c s d host port = Inr i"
proof -
  obtain head la where sl: "split_listen s = (head, la)" by (cases "split_listen s")
  obtain m sep d where pt: "partition_str CHR '':'' head = (m, sep, d)"
    by (cases "partition_str CHR '':'' head")
  from assms parse_unfold[OF sl pt, of rs cls]
  obtain host port c where "listen_addr la = Inr (host, port)" "types (lower m) = Some c"
    "issubclass c cls" "construct rs c s d host port = Inr i"
    by (auto split: sum.splits option.splits if_splits)
  with sl pt that show thesis by blast
qed

lemma parse_full_spec: "parse rs cls s = Inr i \<Longrightarrow> full_spec i = s"
  by (erule parse_Inr_cases) (simp add: construct_fields)

lemma parse_ProxyMode:
  assumes "parse rs cls s = Inr i" shows "parse rs ProxyMode s = Inr i"
proof -
  from assms obtain head la m sep d host port c where
    h: "split_listen s = (head, la)" "partition_str CHR '':'' head = (m, sep, d)"
    "listen_addr la = Inr (host, port)" "types (lower m) = Some c" "issubclass c cls"
    "construct rs c s d host port = Inr i"
    by (rule parse_Inr_cases)
  then show ?thesis using parse_unfold[OF h(1) h(2), of rs ProxyMode] by simp
qed

lemma parse_class_independent:
  assumes "parse rs c1 s = Inr i1" and "parse rs c2 s = Inr i2"
  shows "i1 = i2"
  using parse_ProxyMode[OF assms(1)] parse_ProxyMode[OF assms(2)] by simp

lemma listen_addr_error:
  "listen_addr la = Inl e \<longleftrightarrow>
     la \<noteq> [] \<and> e = InvalidPort (snd (split_host_port la)) \<and>
     (case int_py (snd (split_host_port la)) of None \<Rightarrow> True | Some n \<Rightarrow> n < 0 \<or> 65535 < n)"
  by (auto simp: listen_addr_def split: prod.splits option.splits if_splits)

lemma parse_port_error:
  "parse rs cls s = Inl (InvalidPort p) \<longleftrightarrow> listen_addr (snd (split_listen s)) = Inl (InvalidPort p)"
proof -
  obtain head la where sl: "split_listen s = (head, la)" by (cases "split_listen s")
  obtain m sep d where pt: "partition_str CHR '':'' head = (m, sep, d)"
    by (cases "partition_str CHR '':'' head")
  show ?thesis
    using parse_unfold[OF sl pt, of rs cls] sl post_init_no_port_error
    by (auto simp: construct_def split: sum.splits option.splits if_splits)
qed

section \<open>Facts about the cache\<close>

lemma cached_parse_hit:
  "entries st (cls, how, s) = Some r \<Longrightarrow> cached_parse rs cls how s st = (Inr r, st)"
  by (simp add: cached_parse_def)

lemma cached_parse_stores:
  "cached_parse rs cls how s st = (Inr r, st') \<Longrightarrow> entries st' (cls, how, s) = Some r"
  by (auto simp: cached_parse_def split: option.splits sum.splits)

lemma cached_parse_keeps:
  "entries st k = Some r \<Longrightarrow> entries (snd (cached_parse rs cls how s st)) k = Some r"
  by (auto simp: cached_parse_def split: option.splits sum.splits)

lemma run_calls_keeps:
  "entries st k = Some r \<Longrightarrow> entries (run_calls rs cs st) k = Some r"
proof (induction cs arbitrary: st)
  case Nil
  then show ?case by simp
next
  case (Cons c cs)
  obtain cls how s where c: "c = (cls, how, s)" by (metis prod_cases3)
  from Cons.prems have "entries (snd (cached_parse rs cls how s st)) k = Some r"
    by (rule cached_parse_keeps)
  then show ?case using Cons.IH c by simp
qed

lemma consistent_empty: "consistent rs empty_cache"
  by (simp add: consistent_def empty_cache_def)

lemma cached_parse_consistent:
  "consistent rs (snd (cached_parse rs cls how s st))" if "consistent rs st"
proof (cases "entries st (cls, how, s)")
  case (Some r)
  then show ?thesis using that by (simp add: cached_parse_def)
next
  case None
  show ?thesis
  proof (cases "parse rs cls s")
    case (Inl e)
    with None show ?thesis using that by (simp add: cached_parse_def)
  next
    case (Inr i)
    let ?st = "st\<lparr>entries := (entries st)((cls, how, s) \<mapsto> (created st, i)),
                   created := Suc (created st)\<rparr>"
    have st': "snd (cached_parse rs cls how s st) = ?st"
      using None Inr by (simp add: cached_parse_def)
    have old: "\<And>c w x n j. entries st (c, w, x) = Some (n, j) \<Longrightarrow>
                 parse rs c x = Inr j \<and> n < created st"
      using that by (simp add: consistent_def)
    have inj: "\<And>k k' n j j'. entries st k = Some (n, j) \<Longrightarrow>
                 entries st k' = Some (n, j') \<Longrightarrow> k = k'"
      using that unfolding consistent_def by blast
    have a: "parse rs c x = Inr j \<and> n < created ?st"
      if "entries ?st (c, w, x) = Some (n, j)" for c w x n j
    proof (cases "(c, w, x) = (cls, how, s)")
      case True
      with that Inr show ?thesis by simp
    next
      case False
      with that have "entries st (c, w, x) = Some (n, j)" by (auto split: if_splits)
      from old[OF this] show ?thesis by simp
    qed
    have b: "k = k'"
      if "entries ?st k = Some (n, j)" and "entries ?st k' = Some (n, j')" for k k' n j j'
    proof (cases "k = (cls, how, s)")
      case True
      show ?thesis
      proof (cases "k' = (cls, how, s)")
        case True
        with \<open>k = (cls, how, s)\<close> show ?thesis by simp
      next
        case False
        with that(2) have o: "entries st k' = Some (n, j')" by (auto split: if_splits)
        obtain c w x where "k' = (c, w, x)" by (metis prod_cases3)
        with old o have "n < created st" by blast
        moreover from True that(1) have "n = created st" by simp
        ultimately show ?thesis by simp
      qed
    next
      case False
      with that(1) have o: "entries st k = Some (n, j)" by (auto split: if_splits)
      obtain c w x where "k = (c, w, x)" by (metis prod_cases3)
      with old o have lt: "n < created st" by blast
      show ?thesis
      proof (cases "k' = (cls, how, s)")
        case True
        with that(2) have "n = created st" by simp
        with lt show ?thesis by simp
      next
        case False
        with that(2) have "entries st k' = Some (n, j')" by (auto split: if_splits)
        with o inj show ?thesis by blast
      qed
    qed
    show ?thesis unfolding st' consistent_def using a b by blast
  qed
qed

lemma run_calls_consistent:
  "consistent rs st \<Longrightarrow> consistent rs (run_calls rs cs st)"
proof (induction cs arbitrary: st)
  case Nil
  then show ?case by simp
next
  case (Cons c cs)
  obtain cls how s where c: "c = (cls, how, s)" by (metis prod_cases3)
  from Cons.prems have "consistent rs (snd (cached_parse rs cls how s st))"
    by (rule cached_parse_consistent)
  then show ?case using Cons.IH c by simp
qed

lemma cached_parse_value:
  assumes "consistent rs st" and "cached_parse rs cls how s st = (Inr (n, i), st')"
  shows "parse rs cls s = Inr i"
  using assms unfolding consistent_def cached_parse_def
  by (auto split: option.splits sum.splits)

lemma cached_parse_error:
  assumes "consistent rs st"
  shows "fst (cached_parse rs cls how s st) = Inl e \<longleftrightarrow> parse rs cls s = Inl e"
  using assms unfolding consistent_def cached_parse_def
  by (auto split: option.splits sum.splits)

lemma cached_parse_new:
  assumes "consistent rs st" and "entries st (cls, how, s) = None"
    and "cached_parse rs cls how s st = (Inr (n, i), st')"
  shows "n = created st \<and> created st' = Suc (created st) \<and>
         (\<forall>k m j. entries st k = Some (m, j) \<longrightarrow> m \<noteq> n)"
proof -
  from assms(2,3) have "n = created st" "created st' = Suc (created st)"
    by (auto simp: cached_parse_def split: sum.splits)
  moreover have "m < created st" if "entries st k = Some (m, j)" for k m j
    using assms(1) that unfolding consistent_def by (metis prod_cases3)
  ultimately show ?thesis by blast
qed

section \<open>Concrete specs, listen address and frozen state\<close>

lemmas parse_eval =
  parse_def split_listen_def rpartition_def listen_addr_def split_host_port_def int_py_def
  strip_space_def is_space_def int_unsigned_def is_digit_def digit_val_def types_eq
  lower_def lower_char_def char_of_def bit_0 construct_def regular_post_init_def
  check_empty_def upstream_post_init_def reverse_post_init_def dns_post_init_def
  dtls_post_init_def

lemmas resolve_eval =
  resolve_def rpartition_def all_digits_def decimal_def is_digit_def digit_val_def

lemma parse_regular_1234:
  "parse rs ProxyMode ''regular@1234'' =
     Inr \<lparr>mode_cls = RegularMode, full_spec = ''regular@1234'', data = [],
          custom_listen_host = None, custom_listen_port = Some 1234,
          scheme = None, address = None\<rparr>"
  by (simp add: parse_eval)

lemma parse_socks5:
  "parse rs ProxyMode ''socks5'' =
     Inr \<lparr>mode_cls = Socks5Mode, full_spec = ''socks5'', data = [],
          custom_listen_host = None, custom_listen_port = None,
          scheme = None, address = None\<rparr>"
  by (simp add: parse_eval)

lemma post_init_full_spec:
  "post_init rs c (self\<lparr>full_spec := x\<rparr>) =
     map_sum id (\<lambda>i. i\<lparr>full_spec := x\<rparr>) (post_init rs c self)"
  by (cases c)
     (auto simp: regular_post_init_def check_empty_def upstream_post_init_def
        reverse_post_init_def dns_post_init_def dtls_post_init_def
        split: if_splits sum.splits prod.splits)

lemma construct_full_spec:
  "construct rs c x d host port =
     map_sum id (\<lambda>i. i\<lparr>full_spec := x\<rparr>) (construct rs c y d host port)"
  using post_init_full_spec
    [where self = "\<lparr>mode_cls = c, full_spec = y, data = d, custom_listen_host = host,
        custom_listen_port = port, scheme = None, address = None\<rparr>" and x = x and rs = rs
        and c = c]
  by (simp add: construct_def)

lemma listen_addr_empty: "listen_addr [] = Inr (None, None)"
  by (simp add: listen_addr_def)

text \<open>
  C8. The accessors follow the precedence explicit value, then the caller's default, then
  a fixed fallback: \<open>listen_port\<close> returns the custom port when set, else the default
  given, else the default port of the variant; \<open>listen_host\<close> returns the custom host
  when set, else the default given, else the empty string. Parsing \<open>socks5\<close> gives a
  Socks5 instance whose \<open>listen_port()\<close> is 1080; parsing \<open>regular@1234\<close> gives a
  Regular instance whose \<open>listen_port()\<close> is 1234 and whose \<open>listen_host()\<close> is empty.
\<close>

theorem listen_precedence:
  "(custom_listen_port a = Some p \<longrightarrow> listen_port a pd = p) \<and>
   (custom_listen_port b = None \<longrightarrow>
      listen_port b (Some q) = q \<and> listen_port b None = default_port (mode_cls b)) \<and>
   (custom_listen_host c = Some h \<longrightarrow> listen_host c dh = h) \<and>
   (custom_listen_host d = None \<longrightarrow> listen_host d (Some g) = g \<and> listen_host d None = []) \<and>
   (\<exists>i. parse rs ProxyMode ''socks5'' = Inr i \<and> mode_cls i = Socks5Mode \<and>
        listen_port i None = 1080) \<and>
   (\<exists>i. parse rs ProxyMode ''regular@1234'' = Inr i \<and> mode_cls i = RegularMode \<and>
        listen_port i None = 1234 \<and> listen_host i None = [])"
  by (simp add: listen_port_def listen_host_def parse_regular_1234 parse_socks5)

theorem listen_precedence_witness:
  "custom_listen_port
     \<lparr>mode_cls = RegularMode, full_spec = ''regular@127.0.0.1:1234'', data = [],
      custom_listen_host = Some ''127.0.0.1'', custom_listen_port = Some 1234,
      scheme = None, address = None\<rparr> = Some 1234 \<and>
   listen_port
     \<lparr>mode_cls = RegularMode, full_spec = ''regular@127.0.0.1:1234'', data = [],
      custom_listen_host = Some ''127.0.0.1'', custom_listen_port = Some 1234,
      scheme = None, address = None\<rparr> (Some 8081) = 1234 \<and>
   listen_host
     \<lparr>mode_cls = RegularMode, full_spec = ''regular@127.0.0.1:1234'', data = [],
      custom_listen_host = Some ''127.0.0.1'', custom_listen_port = Some 1234,
      scheme = None, address = None\<rparr> (Some ''10.0.0.1'') = ''127.0.0.1'' \<and>
   custom_listen_port
     \<lparr>mode_cls = DnsMode, full_spec = ''dns'', data = [],
      custom_listen_host = None, custom_listen_port = None,
      scheme = None, address = None\<rparr> = None \<and>
   listen_port
     \<lparr>mode_cls = DnsMode, full_spec = ''dns'', data = [],
      custom_listen_host = None, custom_listen_port = None,
      scheme = None, address = None\<rparr> (Some 5353) = 5353 \<and>
   listen_port
     \<lparr>mode_cls = DnsMode, full_spec = ''dns'', data = [],
      custom_listen_host = None, custom_listen_port = None,
      scheme = None, address = None\<rparr> None = 53 \<and>
   listen_host
     \<lparr>mode_cls = DnsMode, full_spec = ''dns'', data = [],
      custom_listen_host = None, custom_listen_port = None,
      scheme = None, address = None\<rparr> (Some ''10.0.0.1'') = ''10.0.0.1'' \<and>
   listen_host
     \<lparr>mode_cls = DnsMode, full_spec = ''dns'', data = [],
      custom_listen_host = None, custom_listen_port = None,
      scheme = None, address = None\<rparr> None = []"
  using listen_precedence
    [where a = "\<lparr>mode_cls = RegularMode, full_spec = ''regular@127.0.0.1:1234'', data = [],
          custom_listen_host = Some ''127.0.0.1'', custom_listen_port = Some 1234,
          scheme = None, address = None\<rparr>"
       and p = 1234 and pd = "Some 8081"
       and b = "\<lparr>mode_cls = DnsMode, full_spec = ''dns'', data = [],
          custom_listen_host = None, custom_listen_port = None,
          scheme = None, address = None\<rparr>"
       and q = 5353
       and c = "\<lparr>mode_cls = RegularMode, full_spec = ''regular@127.0.0.1:1234'', data = [],
          custom_listen_host = Some ''127.0.0.1'', custom_listen_port = Some 1234,
          scheme = None, address = None\<rparr>"
       and h = "''127.0.0.1''" and dh = "Some ''10.0.0.1''"
       and d = "\<lparr>mode_cls = DnsMode, full_spec = ''dns'', data = [],
          custom_listen_host = None, custom_listen_port = None,
          scheme = None, address = None\<rparr>"
       and g = "''10.0.0.1''" and rs = resolve]
  by simp

text \<open>
  C9. \<open>set_state\<close> fails with \<open>FrozenStateViolation\<close> exactly when the state differs
  from the receiver's \<open>full_spec\<close>; whether it fails or not, the receiver is left as it
  was; with the receiver's own \<open>full_spec\<close> it succeeds and changes nothing.
\<close>

theorem set_state_frozen:
  "(fst (set_state self state) = Inl FrozenStateViolation \<longleftrightarrow> state \<noteq> full_spec self) \<and>
   (fst (set_state self state) = Inr () \<longleftrightarrow> state = full_spec self) \<and>
   snd (set_state self state) = self \<and>
   set_state self (full_spec self) = (Inr (), self)"
  by (simp add: set_state_def)

theorem set_state_frozen_witness:
  "fst (set_state
     \<lparr>mode_cls = Socks5Mode, full_spec = ''socks5'', data = [],
      custom_listen_host = None, custom_listen_port = None,
      scheme = None, address = None\<rparr> ''regular'') = Inl FrozenStateViolation \<and>
   snd (set_state
     \<lparr>mode_cls = Socks5Mode, full_spec = ''socks5'', data = [],
      custom_listen_host = None, custom_listen_port = None,
      scheme = None, address = None\<rparr> ''regular'') =
     \<lparr>mode_cls = Socks5Mode, full_spec = ''socks5'', data = [],
      custom_listen_host = None, custom_listen_port = None,
      scheme = None, address = None\<rparr>"
  using set_state_frozen
    [of "\<lparr>mode_cls = Socks5Mode, full_spec = ''socks5'', data = [],
          custom_listen_host = None, custom_listen_port = None,
          scheme = None, address = None\<rparr>" "''regular''"]
  by simp

section \<open>Round trip and a leading separator\<close>

lemma from_state_consistent:
  assumes "consistent rs st" and "parse rs ProxyMode s = Inr i"
  shows "\<exists>n. fst (from_state rs c s st) = Inr (n, i)"
proof (cases "entries st (ProxyMode, Positional, s)")
  case None
  with assms(2) show ?thesis by (simp add: from_state_def cached_parse_def)
next
  case (Some r)
  obtain n j where r: "r = (n, j)" by (cases r)
  with Some assms(1) have "parse rs ProxyMode s = Inr j" unfolding consistent_def by blast
  with assms(2) have "j = i" by simp
  with Some r show ?thesis by (simp add: from_state_def cached_parse_def)
qed

text \<open>
  C2. When \<open>parse\<close> succeeds on a spec, \<open>get_state\<close> of the instance is that spec,
  parsing the state again gives an equal instance, and \<open>from_state\<close> is a call of
  \<open>ProxyMode.parse\<close>: it goes through the same cache and, in a consistent cache,
  returns an instance equal to the parsed one.
\<close>

theorem state_round_trip:
  assumes "parse rs cls s = Inr i"
  shows "get_state i = s \<and>
         parse rs cls (get_state i) = Inr i \<and>
         parse rs ProxyMode (get_state i) = Inr i \<and>
         dataclass_eq i i \<and>
         from_state rs c state st = cached_parse rs ProxyMode Positional state st \<and>
         (consistent rs st \<longrightarrow> (\<exists>n. fst (from_state rs c (get_state i) st) = Inr (n, i)))"
proof -
  have gs: "get_state i = s" using parse_full_spec[OF assms] by (simp add: get_state_def)
  have pm: "parse rs ProxyMode s = Inr i" using assms by (rule parse_ProxyMode)
  show ?thesis
    using gs pm assms from_state_consistent[OF _ pm]
    by (simp add: dataclass_eq_def from_state_def)
qed

theorem state_round_trip_witness:
  "parse resolve ProxyMode ''regular@1234'' =
     Inr \<lparr>mode_cls = RegularMode, full_spec = ''regular@1234'', data = [],
          custom_listen_host = None, custom_listen_port = Some 1234,
          scheme = None, address = None\<rparr> \<and>
   consistent resolve empty_cache \<and>
   get_state \<lparr>mode_cls = RegularMode, full_spec = ''regular@1234'', data = [],
          custom_listen_host = None, custom_listen_port = Some 1234,
          scheme = None, address = None\<rparr> = ''regular@1234'' \<and>
   fst (from_state resolve (Sub Socks5Mode) ''regular@1234'' empty_cache) =
     Inr (0, \<lparr>mode_cls = RegularMode, full_spec = ''regular@1234'', data = [],
          custom_listen_host = None, custom_listen_port = Some 1234,
          scheme = None, address = None\<rparr>)"
proof -
  let ?i = "\<lparr>mode_cls = RegularMode, full_spec = ''regular@1234'', data = [],
          custom_listen_host = None, custom_listen_port = Some 1234,
          scheme = None, address = None\<rparr>"
  have p: "parse resolve ProxyMode ''regular@1234'' = Inr ?i" by (rule parse_regular_1234)
  note rt = state_round_trip[OF p, where c = "Sub Socks5Mode" and state = "''regular@1234''"
      and st = empty_cache]
  from rt have "get_state ?i = ''regular@1234''" by simp
  moreover from rt p
  have "fst (from_state resolve (Sub Socks5Mode) ''regular@1234'' empty_cache) = Inr (0, ?i)"
    by (simp add: cached_parse_def empty_cache_def)
  ultimately show ?thesis using p consistent_empty by simp
qed

text \<open>
  C10. When nothing stands before the last \<open>@\<close> of a spec, that \<open>@\<close> does not
  separate a listen address: the text after it is the head, the listen segment is empty,
  and the parse is that of the text after the \<open>@\<close>, but for \<open>full_spec\<close>. It never
  fails with \<open>InvalidPort\<close>, and on success no custom listen host or port is set. So
  \<open>@socks5\<close> parses as a Socks5 mode without a custom port.
\<close>

theorem leading_at_is_no_separator:
  assumes "CHR ''@'' \<notin> set rest"
  shows "split_listen (CHR ''@'' # rest) = (rest, []) \<and>
         parse rs cls (CHR ''@'' # rest) =
           map_sum id (\<lambda>i. i\<lparr>full_spec := CHR ''@'' # rest\<rparr>) (parse rs cls rest) \<and>
         (\<forall>p. parse rs cls (CHR ''@'' # rest) \<noteq> Inl (InvalidPort p)) \<and>
         (\<forall>i. parse rs cls (CHR ''@'' # rest) = Inr i \<longrightarrow>
              custom_listen_host i = None \<and> custom_listen_port i = None) \<and>
         parse rs ProxyMode ''@socks5'' =
           Inr \<lparr>mode_cls = Socks5Mode, full_spec = ''@socks5'', data = [],
                custom_listen_host = None, custom_listen_port = None,
                scheme = None, address = None\<rparr>"
proof -
  let ?s = "CHR ''@'' # rest"
  have sl: "split_listen ?s = (rest, [])" using assms by (rule split_listen_leading)
  have sr: "split_listen rest = (rest, [])" using assms by (rule split_listen_absent)
  obtain m sep d where pt: "partition_str CHR '':'' rest = (m, sep, d)"
    by (cases "partition_str CHR '':'' rest")
  have eq: "parse rs cls ?s = map_sum id (\<lambda>i. i\<lparr>full_spec := ?s\<rparr>) (parse rs cls rest)"
    unfolding parse_unfold[OF sl pt] parse_unfold[OF sr pt]
    using construct_full_spec[of rs _ ?s d None None rest]
    by (simp add: listen_addr_empty split: option.splits)
  have np: "parse rs cls ?s \<noteq> Inl (InvalidPort p)" for p
    using sl by (simp add: parse_port_error listen_addr_empty)
  have un: "custom_listen_host i = None \<and> custom_listen_port i = None"
    if "parse rs cls ?s = Inr i" for i
    using that unfolding parse_unfold[OF sl pt]
    by (auto simp: listen_addr_empty dest: construct_fields split: option.splits if_splits)
  have ex: "parse rs ProxyMode ''@socks5'' =
           Inr \<lparr>mode_cls = Socks5Mode, full_spec = ''@socks5'', data = [],
                custom_listen_host = None, custom_listen_port = None,
                scheme = None, address = None\<rparr>"
    by (simp add: parse_eval)
  show ?thesis using sl eq np un ex by blast
qed

theorem leading_at_is_no_separator_witness:
  "CHR ''@'' \<notin> set ''dns:transparent'' \<and>
   split_listen ''@dns:transparent'' = (''dns:transparent'', []) \<and>
   parse resolve ProxyMode ''dns:transparent'' =
     Inr \<lparr>mode_cls = DnsMode, full_spec = ''dns:transparent'', data = ''transparent'',
          custom_listen_host = None, custom_listen_port = None,
          scheme = None, address = None\<rparr> \<and>
   parse resolve ProxyMode ''@dns:transparent'' =
     Inr \<lparr>mode_cls = DnsMode, full_spec = ''@dns:transparent'', data = ''transparent'',
          custom_listen_host = None, custom_listen_port = None,
          scheme = None, address = None\<rparr>"
proof -
  have a: "CHR ''@'' \<notin> set ''dns:transparent''" by simp
  have b: "parse resolve ProxyMode ''dns:transparent'' =
     Inr \<lparr>mode_cls = DnsMode, full_spec = ''dns:transparent'', data = ''transparent'',
          custom_listen_host = None, custom_listen_port = None,
          scheme = None, address = None\<rparr>"
    by (simp add: parse_eval)
  from leading_at_is_no_separator[OF a, of resolve ProxyMode] a b show ?thesis by simp
qed

section \<open>Splitting at the separators, the port, the empty host\<close>

lemma split_listen_nonempty:
  assumes "split_listen s = (h, l)" and "l \<noteq> []"
  shows "s = h @ CHR ''@'' # l \<and> h \<noteq> [] \<and> CHR ''@'' \<notin> set l"
proof (cases "CHR ''@'' \<in> set s")
  case False
  then have "split_listen s = (s, [])" by (rule split_listen_absent)
  with assms show ?thesis by simp
next
  case True
  then obtain h' t where s: "s = h' @ CHR ''@'' # t" and t: "CHR ''@'' \<notin> set t"
    using split_at_last[of "CHR ''@''" s] by auto
  show ?thesis
  proof (cases "h' = []")
    case True
    with s have "split_listen s = (t, [])" using split_listen_leading[OF t] by simp
    with assms show ?thesis by simp
  next
    case False
    have "split_listen s = (h', t)" unfolding s using t False by (rule split_listen_last)
    with assms have "h' = h" "t = l" by simp_all
    with s t False show ?thesis by simp
  qed
qed

lemma split_host_port_cases:
  "(CHR '':'' \<notin> set l \<and> split_host_port l = (None, l)) \<or>
   (\<exists>host p. l = host @ CHR '':'' # p \<and> CHR '':'' \<notin> set p \<and>
      split_host_port l = (Some host, p))"
proof (cases "CHR '':'' \<in> set l")
  case False
  then show ?thesis by (simp add: split_host_port_absent)
next
  case True
  then obtain host p where l: "l = host @ CHR '':'' # p" and p: "CHR '':'' \<notin> set p"
    using split_at_last[of "CHR '':''" l] by auto
  have "split_host_port l = (Some host, p)" unfolding l using p by (rule split_host_port_last)
  with l p show ?thesis by blast
qed

lemma upstream_post_init_accepts:
  assumes "rs (data self) ''http'' = Inr (sch, addr)" and "sch = ''http'' \<or> sch = ''https''"
  shows "upstream_post_init rs self = Inr (self\<lparr>scheme := Some sch, address := Some addr\<rparr>)"
  using assms by (auto simp: upstream_post_init_def)

lemma split_upstream_example:
  "split_listen ''upstream:http://user@host:8080@127.0.0.1:9000'' =
     (''upstream:http://user@host:8080'', ''127.0.0.1:9000'')"
  "partition_str CHR '':'' ''upstream:http://user@host:8080'' =
     (''upstream'', '':'', ''http://user@host:8080'')"
  "listen_addr ''127.0.0.1:9000'' = Inr (Some ''127.0.0.1'', Some 9000)"
  "types (lower ''upstream'') = Some UpstreamMode"
  by (simp_all add: parse_eval)

lemma parse_upstream_example:
  assumes "rs ''http://user@host:8080'' ''http'' = Inr (sch, addr)"
    and "sch = ''http'' \<or> sch = ''https''"
  shows "parse rs ProxyMode ''upstream:http://user@host:8080@127.0.0.1:9000'' =
           Inr \<lparr>mode_cls = UpstreamMode,
                full_spec = ''upstream:http://user@host:8080@127.0.0.1:9000'',
                data = ''http://user@host:8080'',
                custom_listen_host = Some ''127.0.0.1'', custom_listen_port = Some 9000,
                scheme = Some sch, address = Some addr\<rparr>"
proof -
  let ?self = "\<lparr>mode_cls = UpstreamMode,
                full_spec = ''upstream:http://user@host:8080@127.0.0.1:9000'',
                data = ''http://user@host:8080'',
                custom_listen_host = Some ''127.0.0.1'', custom_listen_port = Some 9000,
                scheme = None, address = None\<rparr>"
  have "rs (data ?self) ''http'' = Inr (sch, addr)" using assms(1) by simp
  from upstream_post_init_accepts[of rs ?self sch addr, OF this assms(2)]
  have "construct rs UpstreamMode ''upstream:http://user@host:8080@127.0.0.1:9000''
          ''http://user@host:8080'' (Some ''127.0.0.1'') (Some 9000) =
        Inr (?self\<lparr>scheme := Some sch, address := Some addr\<rparr>)"
    by (simp add: construct_def)
  then show ?thesis
    unfolding parse_unfold[OF split_upstream_example(1,2)]
    by (simp add: split_upstream_example(3,4))
qed

lemma resolve_upstream_example:
  "resolve ''http://user@host:8080'' ''http'' = Inr (''http'', (''user@host'', 8080))"
  by (simp add: resolve_eval)

text \<open>
  C1. As stated the claim fails: in \<open>@socks5\<close> the last \<open>@\<close> has nothing before
  it, and the parser takes \<open>socks5\<close> as the head, not as the listen segment.
\<close>

theorem split_on_last_at_counterexample:
  "CHR ''@'' \<in> set ''@socks5'' \<and>
   split_last_at ''@socks5'' = ([], ''socks5'') \<and>
   split_listen ''@socks5'' = (''socks5'', []) \<and>
   split_listen ''@socks5'' \<noteq> split_last_at ''@socks5'' \<and>
   parse resolve ProxyMode ''@socks5'' =
     Inr \<lparr>mode_cls = Socks5Mode, full_spec = ''@socks5'', data = [],
          custom_listen_host = None, custom_listen_port = None,
          scheme = None, address = None\<rparr>"
  by (simp add: split_last_at_def parse_eval)

text \<open>
  C1, amended. For every spec with a non-empty text before its last \<open>@\<close>, the parser
  splits at that \<open>@\<close> into head and listen segment, and splits the head at its first
  \<open>:\<close> into mode name and data: a successful parse has the mode registered under the
  lower-cased name, the text after the first \<open>:\<close> as data, and the listen segment's
  host and port. The spec \<open>upstream:http://user@host:8080@127.0.0.1:9000\<close> parses,
  whenever the resolver accepts its data with scheme http or https, with listen host
  \<open>127.0.0.1\<close>, listen port 9000 and data \<open>http://user@host:8080\<close>; the resolver of
  the specification does accept it.
\<close>

theorem split_on_last_at:
  assumes "h \<noteq> []" and "CHR ''@'' \<notin> set l"
  shows "split_listen (h @ CHR ''@'' # l) = (h, l) \<and>
         split_listen (h @ CHR ''@'' # l) = split_last_at (h @ CHR ''@'' # l) \<and>
         (\<forall>i. parse rs cls (h @ CHR ''@'' # l) = Inr i \<longrightarrow>
            listen_addr l = Inr (custom_listen_host i, custom_listen_port i) \<and>
            (CHR '':'' \<notin> set h \<longrightarrow> types (lower h) = Some (mode_cls i) \<and> data i = []) \<and>
            (\<forall>m d. h = m @ CHR '':'' # d \<and> CHR '':'' \<notin> set m \<longrightarrow>
               types (lower m) = Some (mode_cls i) \<and> data i = d)) \<and>
         (\<forall>sch addr. rs ''http://user@host:8080'' ''http'' = Inr (sch, addr) \<and>
               (sch = ''http'' \<or> sch = ''https'') \<longrightarrow>
            parse rs ProxyMode ''upstream:http://user@host:8080@127.0.0.1:9000'' =
              Inr \<lparr>mode_cls = UpstreamMode,
                   full_spec = ''upstream:http://user@host:8080@127.0.0.1:9000'',
                   data = ''http://user@host:8080'',
                   custom_listen_host = Some ''127.0.0.1'', custom_listen_port = Some 9000,
                   scheme = Some sch, address = Some addr\<rparr>) \<and>
         parse resolve ProxyMode ''upstream:http://user@host:8080@127.0.0.1:9000'' =
           Inr \<lparr>mode_cls = UpstreamMode,
                full_spec = ''upstream:http://user@host:8080@127.0.0.1:9000'',
                data = ''http://user@host:8080'',
                custom_listen_host = Some ''127.0.0.1'', custom_listen_port = Some 9000,
                scheme = Some ''http'', address = Some (''user@host'', 8080)\<rparr>"
proof -
  let ?s = "h @ CHR ''@'' # l"
  have sl: "split_listen ?s = (h, l)" using assms by (simp add: split_listen_last)
  have sp: "split_last_at ?s = (h, l)" using assms by (simp add: split_last_at_last)
  have body: "listen_addr l = Inr (custom_listen_host i, custom_listen_port i) \<and>
      (CHR '':'' \<notin> set h \<longrightarrow> types (lower h) = Some (mode_cls i) \<and> data i = []) \<and>
      (\<forall>m d. h = m @ CHR '':'' # d \<and> CHR '':'' \<notin> set m \<longrightarrow>
         types (lower m) = Some (mode_cls i) \<and> data i = d)"
    if p: "parse rs cls ?s = Inr i" for i
  proof -
    from p obtain head la m sep d host port c where
      c: "split_listen ?s = (head, la)" "partition_str CHR '':'' head = (m, sep, d)"
      "listen_addr la = Inr (host, port)" "types (lower m) = Some c"
      "construct rs c ?s d host port = Inr i"
      by (rule parse_Inr_cases)
    from c(1) sl have hl: "head = h" "la = l" by simp_all
    note f = construct_fields[OF c(5)]
    have 1: "listen_addr l = Inr (custom_listen_host i, custom_listen_port i)"
      using c(3) hl f by simp
    have 2: "types (lower h) = Some (mode_cls i) \<and> data i = []" if "CHR '':'' \<notin> set h"
      using c(2,4) hl f partition_str_absent[OF that] by simp
    have 3: "types (lower m') = Some (mode_cls i) \<and> data i = d'"
      if "h = m' @ CHR '':'' # d'" "CHR '':'' \<notin> set m'" for m' d'
      using c(2,4) hl f partition_str_first[OF that(2), of d'] that(1) by simp
    from 1 2 3 show ?thesis by blast
  qed
  note up = parse_upstream_example[of rs]
  note ur = parse_upstream_example[of resolve, OF resolve_upstream_example]
  show ?thesis
  proof (intro conjI)
    show "split_listen ?s = (h, l)" by (rule sl)
    show "split_listen ?s = split_last_at ?s" using sl sp by simp
    show "\<forall>i. parse rs cls ?s = Inr i \<longrightarrow>
            listen_addr l = Inr (custom_listen_host i, custom_listen_port i) \<and>
            (CHR '':'' \<notin> set h \<longrightarrow> types (lower h) = Some (mode_cls i) \<and> data i = []) \<and>
            (\<forall>m d. h = m @ CHR '':'' # d \<and> CHR '':'' \<notin> set m \<longrightarrow>
               types (lower m) = Some (mode_cls i) \<and> data i = d)"
      using body by blast
    show "\<forall>sch addr. rs ''http://user@host:8080'' ''http'' = Inr (sch, addr) \<and>
               (sch = ''http'' \<or> sch = ''https'') \<longrightarrow>
            parse rs ProxyMode ''upstream:http://user@host:8080@127.0.0.1:9000'' =
              Inr \<lparr>mode_cls = UpstreamMode,
                   full_spec = ''upstream:http://user@host:8080@127.0.0.1:9000'',
                   data = ''http://user@host:8080'',
                   custom_listen_host = Some ''127.0.0.1'', custom_listen_port = Some 9000,
                   scheme = Some sch, address = Some addr\<rparr>"
      using up by blast
    show "parse resolve ProxyMode ''upstream:http://user@host:8080@127.0.0.1:9000'' =
           Inr \<lparr>mode_cls = UpstreamMode,
                full_spec = ''upstream:http://user@host:8080@127.0.0.1:9000'',
                data = ''http://user@host:8080'',
                custom_listen_host = Some ''127.0.0.1'', custom_listen_port = Some 9000,
                scheme = Some ''http'', address = Some (''user@host'', 8080)\<rparr>"
      using ur by simp
  qed
qed

theorem split_on_last_at_witness:
  "''upstream:http://user@host:8080'' \<noteq> [] \<and> CHR ''@'' \<notin> set ''127.0.0.1:9000'' \<and>
   split_listen ''upstream:http://user@host:8080@127.0.0.1:9000'' =
     (''upstream:http://user@host:8080'', ''127.0.0.1:9000'') \<and>
   listen_addr ''127.0.0.1:9000'' = Inr (Some ''127.0.0.1'', Some 9000) \<and>
   types (lower ''upstream'') = Some UpstreamMode \<and>
   resolve ''http://user@host:8080'' ''http'' = Inr (''http'', (''user@host'', 8080))"
proof -
  have a: "''upstream:http://user@host:8080'' \<noteq> []" by simp
  have b: "CHR ''@'' \<notin> set ''127.0.0.1:9000''" by simp
  from split_on_last_at[OF a b, of resolve ProxyMode]
  have "split_listen (''upstream:http://user@host:8080'' @ CHR ''@'' # ''127.0.0.1:9000'') =
          (''upstream:http://user@host:8080'', ''127.0.0.1:9000'')"
    by (rule conjunct1)
  then have "split_listen ''upstream:http://user@host:8080@127.0.0.1:9000'' =
     (''upstream:http://user@host:8080'', ''127.0.0.1:9000'')"
    by simp
  with a b split_upstream_example(3,4) resolve_upstream_example show ?thesis by simp
qed

text \<open>
  C4. As stated the claim fails: \<open>@70000\<close> carries a port segment after its \<open>@\<close>
  that is an integer outside the range, yet the parser takes \<open>70000\<close> as the mode
  name and fails with \<open>UnknownMode\<close>.
\<close>

theorem invalid_port_iff_counterexample:
  "split_last_at ''@70000'' = ([], ''70000'') \<and>
   int_py ''70000'' = Some 70000 \<and>
   parse resolve ProxyMode ''@70000'' = Inl UnknownMode \<and>
   parse resolve ProxyMode ''@70000'' \<noteq> Inl (InvalidPort ''70000'')"
  by (simp add: split_last_at_def parse_eval)

text \<open>
  C4, amended. \<open>parse\<close> fails with \<open>InvalidPort\<close> exactly when the text before the
  last \<open>@\<close> is not empty and the listen segment after it is not empty and has a port
  string (the text after its last \<open>:\<close>, or all of it) that \<open>int\<close> rejects or reads
  as a number outside 0 to 65535; the error carries that port string. So
  \<open>regular@70000\<close> fails with \<open>InvalidPort\<close>, and \<open>regular@0\<close> and
  \<open>regular@65535\<close> parse.
\<close>

theorem invalid_port_iff:
  "(parse rs cls s = Inl (InvalidPort p) \<longleftrightarrow>
      (\<exists>h l. s = h @ CHR ''@'' # l \<and> CHR ''@'' \<notin> set l \<and> h \<noteq> [] \<and> l \<noteq> [] \<and>
             ((CHR '':'' \<notin> set l \<and> p = l) \<or>
              (\<exists>host. l = host @ CHR '':'' # p \<and> CHR '':'' \<notin> set p)) \<and>
             (case int_py p of None \<Rightarrow> True | Some n \<Rightarrow> n < 0 \<or> 65535 < n))) \<and>
   parse rs ProxyMode ''regular@70000'' = Inl (InvalidPort ''70000'') \<and>
   parse rs ProxyMode ''regular@0'' =
     Inr \<lparr>mode_cls = RegularMode, full_spec = ''regular@0'', data = [],
          custom_listen_host = None, custom_listen_port = Some 0,
          scheme = None, address = None\<rparr> \<and>
   parse rs ProxyMode ''regular@65535'' =
     Inr \<lparr>mode_cls = RegularMode, full_spec = ''regular@65535'', data = [],
          custom_listen_host = None, custom_listen_port = Some 65535,
          scheme = None, address = None\<rparr>"
proof -
  let ?bad = "\<lambda>q. case int_py q of None \<Rightarrow> True | Some n \<Rightarrow> n < 0 \<or> 65535 < n"
  let ?R = "\<exists>h l. s = h @ CHR ''@'' # l \<and> CHR ''@'' \<notin> set l \<and> h \<noteq> [] \<and> l \<noteq> [] \<and>
             ((CHR '':'' \<notin> set l \<and> p = l) \<or>
              (\<exists>host. l = host @ CHR '':'' # p \<and> CHR '':'' \<notin> set p)) \<and> ?bad p"
  have "?R" if e: "parse rs cls s = Inl (InvalidPort p)"
  proof -
    obtain h l where sl: "split_listen s = (h, l)" by (cases "split_listen s")
    from e sl have la: "listen_addr l = Inl (InvalidPort p)" by (simp add: parse_port_error)
    then have l: "l \<noteq> []" and p: "p = snd (split_host_port l)" and bad: "?bad p"
      by (simp_all add: listen_addr_error)
    from split_listen_nonempty[OF sl l]
    have s: "s = h @ CHR ''@'' # l" "h \<noteq> []" "CHR ''@'' \<notin> set l" by simp_all
    from split_host_port_cases[of l] p
    have "(CHR '':'' \<notin> set l \<and> p = l) \<or>
          (\<exists>host. l = host @ CHR '':'' # p \<and> CHR '':'' \<notin> set p)"
      by auto
    with s l bad show ?thesis by blast
  qed
  moreover have "parse rs cls s = Inl (InvalidPort p)" if "?R"
  proof -
    from that obtain h l where s: "s = h @ CHR ''@'' # l" and l: "CHR ''@'' \<notin> set l"
      and h: "h \<noteq> []" and ln: "l \<noteq> []"
      and sp: "(CHR '':'' \<notin> set l \<and> p = l) \<or>
               (\<exists>host. l = host @ CHR '':'' # p \<and> CHR '':'' \<notin> set p)"
      and bad: "?bad p"
      by blast
    have sl: "split_listen s = (h, l)" unfolding s using l h by (rule split_listen_last)
    from sp have "snd (split_host_port l) = p"
    proof
      assume "CHR '':'' \<notin> set l \<and> p = l"
      then show ?thesis by (simp add: split_host_port_absent)
    next
      assume "\<exists>host. l = host @ CHR '':'' # p \<and> CHR '':'' \<notin> set p"
      then obtain host where "l = host @ CHR '':'' # p" "CHR '':'' \<notin> set p" by blast
      then show ?thesis by (simp add: split_host_port_last)
    qed
    with ln bad have "listen_addr l = Inl (InvalidPort p)" by (simp add: listen_addr_error)
    with sl show ?thesis by (simp add: parse_port_error)
  qed
  ultimately have iff: "parse rs cls s = Inl (InvalidPort p) \<longleftrightarrow> ?R" by blast
  have ex: "parse rs ProxyMode ''regular@70000'' = Inl (InvalidPort ''70000'')"
    "parse rs ProxyMode ''regular@0'' =
     Inr \<lparr>mode_cls = RegularMode, full_spec = ''regular@0'', data = [],
          custom_listen_host = None, custom_listen_port = Some 0,
          scheme = None, address = None\<rparr>"
    "parse rs ProxyMode ''regular@65535'' =
     Inr \<lparr>mode_cls = RegularMode, full_spec = ''regular@65535'', data = [],
          custom_listen_host = None, custom_listen_port = Some 65535,
          scheme = None, address = None\<rparr>"
    by (simp_all add: parse_eval)
  from iff ex show ?thesis by (intro conjI)
qed

theorem invalid_port_iff_witness:
  "parse resolve ProxyMode ''reverse:example.com@invalid-port'' = Inl (InvalidPort ''invalid-port'') \<and>
   int_py ''invalid-port'' = None \<and>
   parse resolve ProxyMode ''regular@[::1]:-1'' = Inl (InvalidPort ''-1'') \<and>
   int_py ''-1'' = Some (- 1)"
proof -
  have 1: "int_py ''invalid-port'' = None" "int_py ''-1'' = Some (- 1)"
    by (simp_all add: parse_eval)
  have "\<exists>h l. ''reverse:example.com@invalid-port'' = h @ CHR ''@'' # l \<and> CHR ''@'' \<notin> set l \<and>
      h \<noteq> [] \<and> l \<noteq> [] \<and>
      ((CHR '':'' \<notin> set l \<and> ''invalid-port'' = l) \<or>
       (\<exists>host. l = host @ CHR '':'' # ''invalid-port'' \<and> CHR '':'' \<notin> set ''invalid-port'')) \<and>
      (case int_py ''invalid-port'' of None \<Rightarrow> True | Some n \<Rightarrow> n < 0 \<or> 65535 < n)"
    by (rule exI[of _ "''reverse:example.com''"], rule exI[of _ "''invalid-port''"])
       (simp add: 1)
  with invalid_port_iff[of resolve ProxyMode "''reverse:example.com@invalid-port''" "''invalid-port''"]
  have a: "parse resolve ProxyMode ''reverse:example.com@invalid-port'' =
             Inl (InvalidPort ''invalid-port'')"
    by blast
  have "\<exists>h l. ''regular@[::1]:-1'' = h @ CHR ''@'' # l \<and> CHR ''@'' \<notin> set l \<and>
      h \<noteq> [] \<and> l \<noteq> [] \<and>
      ((CHR '':'' \<notin> set l \<and> ''-1'' = l) \<or>
       (\<exists>host. l = host @ CHR '':'' # ''-1'' \<and> CHR '':'' \<notin> set ''-1'')) \<and>
      (case int_py ''-1'' of None \<Rightarrow> True | Some n \<Rightarrow> n < 0 \<or> 65535 < n)"
    by (rule exI[of _ "''regular''"], rule exI[of _ "''[::1]:-1''"])
       (simp add: 1 exI[of _ "''[::1]''"])
  with invalid_port_iff[of resolve ProxyMode "''regular@[::1]:-1''" "''-1''"]
  have b: "parse resolve ProxyMode ''regular@[::1]:-1'' = Inl (InvalidPort ''-1'')"
    by blast
  from a b 1 show ?thesis by simp
qed

text \<open>
  C5. As stated the claim fails: for \<open>regular@:443\<close> the custom listen host is the
  empty string, which is set, and \<open>listen_host\<close> returns it although a default is
  given.
\<close>

theorem empty_listen_host_counterexample:
  "parse resolve ProxyMode ''regular@:443'' =
     Inr \<lparr>mode_cls = RegularMode, full_spec = ''regular@:443'', data = [],
          custom_listen_host = Some [], custom_listen_port = Some 443,
          scheme = None, address = None\<rparr> \<and>
   listen_host
     \<lparr>mode_cls = RegularMode, full_spec = ''regular@:443'', data = [],
      custom_listen_host = Some [], custom_listen_port = Some 443,
      scheme = None, address = None\<rparr> (Some ''127.0.0.1'') = [] \<and>
   listen_host
     \<lparr>mode_cls = RegularMode, full_spec = ''regular@:443'', data = [],
      custom_listen_host = Some [], custom_listen_port = Some 443,
      scheme = None, address = None\<rparr> (Some ''127.0.0.1'') \<noteq> ''127.0.0.1''"
  by (simp add: parse_eval listen_host_def)

text \<open>
  C5, amended. When the listen segment has an empty host part before its last \<open>:\<close>,
  as in \<open>regular@:443\<close>, the custom listen host is the empty string and counts as
  set: \<open>listen_host\<close> returns the empty string whether or not the caller gives a
  default.
\<close>

theorem empty_listen_host_is_set:
  assumes "h \<noteq> []" and "CHR ''@'' \<notin> set p" and "CHR '':'' \<notin> set p"
    and "parse rs cls (h @ ''@:'' @ p) = Inr i"
  shows "custom_listen_host i = Some [] \<and> listen_host i dflt = []"
proof -
  have at: "CHR ''@'' \<notin> set (CHR '':'' # p)" using assms(2) by simp
  have s: "h @ ''@:'' @ p = h @ CHR ''@'' # (CHR '':'' # p)" by simp
  have sl: "split_listen (h @ ''@:'' @ p) = (h, CHR '':'' # p)"
    unfolding s using at assms(1) by (rule split_listen_last)
  from assms(4) obtain head la m sep d host port c where
    c: "split_listen (h @ ''@:'' @ p) = (head, la)" "listen_addr la = Inr (host, port)"
    "construct rs c (h @ ''@:'' @ p) d host port = Inr i"
    by (rule parse_Inr_cases)
  from c(1) sl have la: "la = CHR '':'' # p" by simp
  have "split_host_port (CHR '':'' # p) = (Some [], p)"
    using split_host_port_last[OF assms(3), of "[]"] by simp
  with c(2) la have "host = Some []"
    by (auto simp: listen_addr_def split: option.splits if_splits)
  with construct_fields[OF c(3)] show ?thesis by (simp add: listen_host_def)
qed

theorem empty_listen_host_is_set_witness:
  "''regular'' \<noteq> [] \<and> CHR ''@'' \<notin> set ''443'' \<and> CHR '':'' \<notin> set ''443'' \<and>
   parse resolve ProxyMode ''regular@:443'' =
     Inr \<lparr>mode_cls = RegularMode, full_spec = ''regular@:443'', data = [],
          custom_listen_host = Some [], custom_listen_port = Some 443,
          scheme = None, address = None\<rparr> \<and>
   listen_host
     \<lparr>mode_cls = RegularMode, full_spec = ''regular@:443'', data = [],
      custom_listen_host = Some [], custom_listen_port = Some 443,
      scheme = None, address = None\<rparr> None = [] \<and>
   listen_host
     \<lparr>mode_cls = RegularMode, full_spec = ''regular@:443'', data = [],
      custom_listen_host = Some [], custom_listen_port = Some 443,
      scheme = None, address = None\<rparr> (Some ''10.0.0.1'') = []"
proof -
  let ?i = "\<lparr>mode_cls = RegularMode, full_spec = ''regular@:443'', data = [],
          custom_listen_host = Some [], custom_listen_port = Some 443,
          scheme = None, address = None\<rparr>"
  have a: "''regular'' \<noteq> []" and b: "CHR ''@'' \<notin> set ''443''" and c: "CHR '':'' \<notin> set ''443''"
    by simp_all
  have p: "parse resolve ProxyMode (''regular'' @ ''@:'' @ ''443'') = Inr ?i"
    by (simp add: parse_eval)
  note t = empty_listen_host_is_set[OF a b c p]
  from t[of None] t[of "Some ''10.0.0.1''"] p a b c show ?thesis by simp
qed

section \<open>The validators that resolve an address\<close>

lemma parse_without_listen:
  assumes "CHR '':'' \<notin> set m" and "CHR ''@'' \<notin> set m" and "CHR ''@'' \<notin> set d"
    and "types (lower m) = Some c"
  shows "parse rs ProxyMode (m @ CHR '':'' # d) = construct rs c (m @ CHR '':'' # d) d None None"
proof -
  have "CHR ''@'' \<notin> set (m @ CHR '':'' # d)" using assms(2,3) by simp
  then have sl: "split_listen (m @ CHR '':'' # d) = (m @ CHR '':'' # d, [])"
    by (rule split_listen_absent)
  have pt: "partition_str CHR '':'' (m @ CHR '':'' # d) = (m, [CHR '':''], d)"
    using assms(1) by (rule partition_str_first)
  show ?thesis unfolding parse_unfold[OF sl pt] using assms(4) by (simp add: listen_addr_empty)
qed

lemma dns_post_init_plain:
  assumes "d = [] \<or> d = ''resolve-local'' \<or> d = ''transparent''"
  shows "dns_post_init rs (self\<lparr>data := d\<rparr>) = Inr (self\<lparr>data := d\<rparr>)"
  using assms by (auto simp: dns_post_init_def)

lemma dns_post_init_reverse:
  assumes "data self = ''reverse:'' @ server"
  shows "dns_post_init rs self =
     (case rs server ''dns'' of
        Inl msg \<Rightarrow> Inl (ResolverError msg)
      | Inr (sch, addr) \<Rightarrow>
          if sch = ''dns'' then Inr (self\<lparr>scheme := Some sch, address := Some addr\<rparr>)
          else Inl (InvalidScheme DnsMode))"
proof -
  have "partition_str CHR '':'' (''reverse:'' @ server) = (''reverse'', [CHR '':''], server)"
    using partition_str_first[of "CHR '':''" "''reverse''" server] by simp
  then have "partition_str CHR '':'' (data self) = (''reverse'', [CHR '':''], server)"
    by (simp only: assms)
  moreover have "data self \<notin> set [[], ''resolve-local'', ''transparent'']"
    by (simp add: assms)
  ultimately show ?thesis
    unfolding dns_post_init_def by (simp split: sum.splits prod.splits)
qed

lemma dns_post_init_reverse_bare:
  assumes "data self = ''reverse''"
  shows "dns_post_init rs self =
     (case rs [] ''dns'' of
        Inl msg \<Rightarrow> Inl (ResolverError msg)
      | Inr (sch, addr) \<Rightarrow>
          if sch = ''dns'' then Inr (self\<lparr>scheme := Some sch, address := Some addr\<rparr>)
          else Inl (InvalidScheme DnsMode))"
proof -
  have "partition_str CHR '':'' ''reverse'' = (''reverse'', [], [])"
    by (rule partition_str_absent) simp
  then have "partition_str CHR '':'' (data self) = (''reverse'', [], [])"
    by (simp only: assms)
  moreover have "data self \<notin> set [[], ''resolve-local'', ''transparent'']"
    by (simp add: assms)
  ultimately show ?thesis
    unfolding dns_post_init_def by (simp split: sum.splits prod.splits)
qed

lemma dns_post_init_other:
  assumes "CHR '':'' \<notin> set m" and "m \<noteq> ''reverse''"
    and "d = m \<or> (\<exists>t. d = m @ CHR '':'' # t)"
    and "d \<noteq> []" and "d \<noteq> ''resolve-local''" and "d \<noteq> ''transparent''"
  shows "dns_post_init rs (self\<lparr>data := d\<rparr>) = Inl InvalidDnsMode"
proof -
  from assms(3) have "fst (partition_str CHR '':'' d) = m"
  proof
    assume "d = m"
    then show ?thesis using partition_str_absent[OF assms(1)] by simp
  next
    assume "\<exists>t. d = m @ CHR '':'' # t"
    then obtain t where "d = m @ CHR '':'' # t" by blast
    then show ?thesis using partition_str_first[OF assms(1), of t] by simp
  qed
  with assms(2,4,5,6) show ?thesis
    by (auto simp: dns_post_init_def split: prod.splits)
qed

lemma parse_dns_bare:
  "parse rs ProxyMode ''dns'' =
     Inr \<lparr>mode_cls = DnsMode, full_spec = ''dns'', data = [],
          custom_listen_host = None, custom_listen_port = None,
          scheme = None, address = None\<rparr>"
  by (simp add: parse_eval)

lemma split_dns_example:
  "split_listen ''dns:reverse:dns://1.1.1.1:53'' = (''dns:reverse:dns://1.1.1.1:53'', [])"
  "partition_str CHR '':'' ''dns:reverse:dns://1.1.1.1:53'' =
     (''dns'', '':'', ''reverse:dns://1.1.1.1:53'')"
  "types (lower ''dns'') = Some DnsMode"
  by (simp_all add: parse_eval)

lemma parse_dns_example:
  assumes "rs ''dns://1.1.1.1:53'' ''dns'' = Inr (''dns'', (''1.1.1.1'', 53))"
  shows "parse rs ProxyMode ''dns:reverse:dns://1.1.1.1:53'' =
     Inr \<lparr>mode_cls = DnsMode, full_spec = ''dns:reverse:dns://1.1.1.1:53'',
          data = ''reverse:dns://1.1.1.1:53'',
          custom_listen_host = None, custom_listen_port = None,
          scheme = Some ''dns'', address = Some (''1.1.1.1'', 53)\<rparr>"
proof -
  let ?full = "\<lparr>mode_cls = DnsMode, full_spec = ''dns:reverse:dns://1.1.1.1:53'',
          data = ''reverse:dns://1.1.1.1:53'', custom_listen_host = None,
          custom_listen_port = None, scheme = None, address = None\<rparr>"
  have "data ?full = ''reverse:'' @ ''dns://1.1.1.1:53''" by simp
  from dns_post_init_reverse[OF this, where rs = rs] assms
  have "dns_post_init rs ?full =
          Inr (?full\<lparr>scheme := Some ''dns'', address := Some (''1.1.1.1'', 53)\<rparr>)"
    by simp
  then show ?thesis
    unfolding parse_unfold[OF split_dns_example(1,2)]
    by (simp add: split_dns_example(3) listen_addr_empty construct_def)
qed

lemma resolve_dns_example:
  "resolve ''dns://1.1.1.1:53'' ''dns'' = Inr (''dns'', (''1.1.1.1'', 53))"
  by (simp add: resolve_eval)

text \<open>
  C6. The Dns validator accepts the data \<open>""\<close>, \<open>resolve-local\<close> and
  \<open>transparent\<close> as they are, whatever the resolver, and sets neither scheme nor
  address. Data \<open>reverse:\<close> followed by a server hands the server to the resolver with
  the default scheme \<open>dns\<close> (the bare data \<open>reverse\<close> hands it the empty string),
  passes on its failure, rejects a scheme other than
  \<open>dns\<close> and otherwise stores scheme and address as returned. Any other leading token
  before the first \<open>:\<close> fails with \<open>InvalidDnsMode\<close>. \<open>resolve_local\<close> holds
  exactly for the data \<open>""\<close> and \<open>resolve-local\<close>. A spec \<open>dns:\<close> followed by data
  without \<open>@\<close> runs this validator on that data. \<open>dns\<close> parses to a Dns instance
  with \<open>resolve_local\<close>; \<open>dns:reverse:dns://1.1.1.1:53\<close> parses, when the resolver
  returns \<open>(dns, (1.1.1.1, 53))\<close> as the resolver of the specification does, to scheme
  \<open>dns\<close>, address \<open>(1.1.1.1, 53)\<close> and no \<open>resolve_local\<close>.
\<close>

theorem dns_validation:
  "(data a = [] \<or> data a = ''resolve-local'' \<or> data a = ''transparent'' \<longrightarrow>
      dns_post_init rs a = Inr a) \<and>
   (data b = ''reverse:'' @ server \<longrightarrow>
      dns_post_init rs b =
        (case rs server ''dns'' of
           Inl msg \<Rightarrow> Inl (ResolverError msg)
         | Inr (sch, addr) \<Rightarrow>
             if sch = ''dns'' then Inr (b\<lparr>scheme := Some sch, address := Some addr\<rparr>)
             else Inl (InvalidScheme DnsMode))) \<and>
   (data b' = ''reverse'' \<longrightarrow>
      dns_post_init rs b' =
        (case rs [] ''dns'' of
           Inl msg \<Rightarrow> Inl (ResolverError msg)
         | Inr (sch, addr) \<Rightarrow>
             if sch = ''dns'' then Inr (b'\<lparr>scheme := Some sch, address := Some addr\<rparr>)
             else Inl (InvalidScheme DnsMode))) \<and>
   (CHR '':'' \<notin> set m \<and> m \<noteq> ''reverse'' \<and> (data c = m \<or> (\<exists>t. data c = m @ CHR '':'' # t)) \<and>
    data c \<noteq> [] \<and> data c \<noteq> ''resolve-local'' \<and> data c \<noteq> ''transparent'' \<longrightarrow>
      dns_post_init rs c = Inl InvalidDnsMode) \<and>
   (resolve_local e \<longleftrightarrow> data e = [] \<or> data e = ''resolve-local'') \<and>
   (CHR ''@'' \<notin> set d \<longrightarrow>
      parse rs ProxyMode (''dns:'' @ d) =
        dns_post_init rs
          \<lparr>mode_cls = DnsMode, full_spec = ''dns:'' @ d, data = d, custom_listen_host = None,
           custom_listen_port = None, scheme = None, address = None\<rparr>) \<and>
   parse rs ProxyMode ''dns'' =
     Inr \<lparr>mode_cls = DnsMode, full_spec = ''dns'', data = [],
          custom_listen_host = None, custom_listen_port = None,
          scheme = None, address = None\<rparr> \<and>
   resolve_local
     \<lparr>mode_cls = DnsMode, full_spec = ''dns'', data = [],
      custom_listen_host = None, custom_listen_port = None,
      scheme = None, address = None\<rparr> \<and>
   (rs ''dns://1.1.1.1:53'' ''dns'' = Inr (''dns'', (''1.1.1.1'', 53)) \<longrightarrow>
      parse rs ProxyMode ''dns:reverse:dns://1.1.1.1:53'' =
        Inr \<lparr>mode_cls = DnsMode, full_spec = ''dns:reverse:dns://1.1.1.1:53'',
             data = ''reverse:dns://1.1.1.1:53'',
             custom_listen_host = None, custom_listen_port = None,
             scheme = Some ''dns'', address = Some (''1.1.1.1'', 53)\<rparr>) \<and>
   parse resolve ProxyMode ''dns:reverse:dns://1.1.1.1:53'' =
     Inr \<lparr>mode_cls = DnsMode, full_spec = ''dns:reverse:dns://1.1.1.1:53'',
          data = ''reverse:dns://1.1.1.1:53'',
          custom_listen_host = None, custom_listen_port = None,
          scheme = Some ''dns'', address = Some (''1.1.1.1'', 53)\<rparr> \<and>
   \<not> resolve_local
     \<lparr>mode_cls = DnsMode, full_spec = ''dns:reverse:dns://1.1.1.1:53'',
      data = ''reverse:dns://1.1.1.1:53'',
      custom_listen_host = None, custom_listen_port = None,
      scheme = Some ''dns'', address = Some (''1.1.1.1'', 53)\<rparr>"
proof (intro conjI impI)
  assume "data a = [] \<or> data a = ''resolve-local'' \<or> data a = ''transparent''"
  from dns_post_init_plain[OF this, where rs = rs and self = a] show "dns_post_init rs a = Inr a" by simp
next
  assume "data b = ''reverse:'' @ server"
  then show "dns_post_init rs b =
        (case rs server ''dns'' of
           Inl msg \<Rightarrow> Inl (ResolverError msg)
         | Inr (sch, addr) \<Rightarrow>
             if sch = ''dns'' then Inr (b\<lparr>scheme := Some sch, address := Some addr\<rparr>)
             else Inl (InvalidScheme DnsMode))"
    by (rule dns_post_init_reverse)
next
  assume "data b' = ''reverse''"
  then show "dns_post_init rs b' =
        (case rs [] ''dns'' of
           Inl msg \<Rightarrow> Inl (ResolverError msg)
         | Inr (sch, addr) \<Rightarrow>
             if sch = ''dns'' then Inr (b'\<lparr>scheme := Some sch, address := Some addr\<rparr>)
             else Inl (InvalidScheme DnsMode))"
    by (rule dns_post_init_reverse_bare)
next
  assume h: "CHR '':'' \<notin> set m \<and> m \<noteq> ''reverse'' \<and>
    (data c = m \<or> (\<exists>t. data c = m @ CHR '':'' # t)) \<and>
    data c \<noteq> [] \<and> data c \<noteq> ''resolve-local'' \<and> data c \<noteq> ''transparent''"
  then have "dns_post_init rs (c\<lparr>data := data c\<rparr>) = Inl InvalidDnsMode"
    by (intro dns_post_init_other[where m = m]) simp_all
  then show "dns_post_init rs c = Inl InvalidDnsMode" by simp
next
  show "resolve_local e \<longleftrightarrow> data e = [] \<or> data e = ''resolve-local''"
    by (simp add: resolve_local_def)
next
  assume "CHR ''@'' \<notin> set d"
  from parse_without_listen[where m = "''dns''" and d = d and c = DnsMode and rs = rs, OF _ _ this]
  show "parse rs ProxyMode (''dns:'' @ d) =
        dns_post_init rs
          \<lparr>mode_cls = DnsMode, full_spec = ''dns:'' @ d, data = d, custom_listen_host = None,
           custom_listen_port = None, scheme = None, address = None\<rparr>"
    by (simp add: split_dns_example(3) construct_def)
next
  show "parse rs ProxyMode ''dns'' =
     Inr \<lparr>mode_cls = DnsMode, full_spec = ''dns'', data = [],
          custom_listen_host = None, custom_listen_port = None,
          scheme = None, address = None\<rparr>"
    by (rule parse_dns_bare)
next
  show "resolve_local
     \<lparr>mode_cls = DnsMode, full_spec = ''dns'', data = [],
      custom_listen_host = None, custom_listen_port = None,
      scheme = None, address = None\<rparr>"
    by (simp add: resolve_local_def)
next
  assume "rs ''dns://1.1.1.1:53'' ''dns'' = Inr (''dns'', (''1.1.1.1'', 53))"
  then show "parse rs ProxyMode ''dns:reverse:dns://1.1.1.1:53'' =
        Inr \<lparr>mode_cls = DnsMode, full_spec = ''dns:reverse:dns://1.1.1.1:53'',
             data = ''reverse:dns://1.1.1.1:53'',
             custom_listen_host = None, custom_listen_port = None,
             scheme = Some ''dns'', address = Some (''1.1.1.1'', 53)\<rparr>"
    by (rule parse_dns_example)
next
  show "parse resolve ProxyMode ''dns:reverse:dns://1.1.1.1:53'' =
     Inr \<lparr>mode_cls = DnsMode, full_spec = ''dns:reverse:dns://1.1.1.1:53'',
          data = ''reverse:dns://1.1.1.1:53'',
          custom_listen_host = None, custom_listen_port = None,
          scheme = Some ''dns'', address = Some (''1.1.1.1'', 53)\<rparr>"
    using resolve_dns_example by (rule parse_dns_example)
next
  show "\<not> resolve_local
     \<lparr>mode_cls = DnsMode, full_spec = ''dns:reverse:dns://1.1.1.1:53'',
      data = ''reverse:dns://1.1.1.1:53'',
      custom_listen_host = None, custom_listen_port = None,
      scheme = Some ''dns'', address = Some (''1.1.1.1'', 53)\<rparr>"
    by (simp add: resolve_local_def)
qed

theorem dns_validation_witness:
  "dns_post_init resolve
     \<lparr>mode_cls = DnsMode, full_spec = ''dns:transparent'', data = ''transparent'',
      custom_listen_host = None, custom_listen_port = None, scheme = None, address = None\<rparr> =
   Inr \<lparr>mode_cls = DnsMode, full_spec = ''dns:transparent'', data = ''transparent'',
        custom_listen_host = None, custom_listen_port = None, scheme = None, address = None\<rparr> \<and>
   resolve ''http://1.1.1.1:53'' ''dns'' = Inr (''http'', (''1.1.1.1'', 53)) \<and>
   dns_post_init resolve
     \<lparr>mode_cls = DnsMode, full_spec = ''dns:reverse:http://1.1.1.1:53'',
      data = ''reverse:http://1.1.1.1:53'',
      custom_listen_host = None, custom_listen_port = None, scheme = None, address = None\<rparr> =
   Inl (InvalidScheme DnsMode) \<and>
   dns_post_init resolve
     \<lparr>mode_cls = DnsMode, full_spec = ''dns:reverse'', data = ''reverse'',
      custom_listen_host = None, custom_listen_port = None, scheme = None, address = None\<rparr> =
   Inl (ResolverError ''not of the form [scheme://]host:port'') \<and>
   CHR '':'' \<notin> set ''forward'' \<and> ''forward'' \<noteq> ''reverse'' \<and>
   dns_post_init resolve
     \<lparr>mode_cls = DnsMode, full_spec = ''dns:forward:1.1.1.1:53'', data = ''forward:1.1.1.1:53'',
      custom_listen_host = None, custom_listen_port = None, scheme = None, address = None\<rparr> =
   Inl InvalidDnsMode \<and>
   CHR ''@'' \<notin> set ''transparent'' \<and>
   parse resolve ProxyMode ''dns:transparent'' =
   Inr \<lparr>mode_cls = DnsMode, full_spec = ''dns:transparent'', data = ''transparent'',
        custom_listen_host = None, custom_listen_port = None, scheme = None, address = None\<rparr>"
proof -
  let ?a = "\<lparr>mode_cls = DnsMode, full_spec = ''dns:transparent'', data = ''transparent'',
      custom_listen_host = None, custom_listen_port = None, scheme = None, address = None\<rparr>"
  let ?b = "\<lparr>mode_cls = DnsMode, full_spec = ''dns:reverse:http://1.1.1.1:53'',
      data = ''reverse:http://1.1.1.1:53'',
      custom_listen_host = None, custom_listen_port = None, scheme = None, address = None\<rparr>"
  let ?b' = "\<lparr>mode_cls = DnsMode, full_spec = ''dns:reverse'', data = ''reverse'',
      custom_listen_host = None, custom_listen_port = None, scheme = None, address = None\<rparr>"
  let ?c = "\<lparr>mode_cls = DnsMode, full_spec = ''dns:forward:1.1.1.1:53'',
      data = ''forward:1.1.1.1:53'',
      custom_listen_host = None, custom_listen_port = None, scheme = None, address = None\<rparr>"
  note t = dns_validation[where rs = resolve and a = ?a and b = ?b and b' = ?b'
      and server = "''http://1.1.1.1:53''" and c = ?c and m = "''forward''"
      and d = "''transparent''"]
  have r: "resolve ''http://1.1.1.1:53'' ''dns'' = Inr (''http'', (''1.1.1.1'', 53))"
    by (simp add: resolve_eval)
  have 1: "dns_post_init resolve ?a = Inr ?a" using t by simp
  have 2: "dns_post_init resolve ?b = Inl (InvalidScheme DnsMode)" using t r by simp
  have r': "resolve [] ''dns'' = Inl ''not of the form [scheme://]host:port''"
    by (simp add: resolve_eval)
  have 20: "dns_post_init resolve ?b' = Inl (ResolverError ''not of the form [scheme://]host:port'')"
    using t r' by simp
  have 3: "dns_post_init resolve ?c = Inl InvalidDnsMode" using t by simp
  have 4: "parse resolve ProxyMode ''dns:transparent'' = Inr ?a" using t 1 by simp
  from 1 2 20 3 4 r show ?thesis by simp
qed

lemma parse_ftp_example:
  assumes "rs ''ftp://host:21'' ''http'' = Inr (''ftp'', addr)"
  shows "parse rs ProxyMode ''upstream:ftp://host:21'' = Inl (InvalidScheme UpstreamMode)"
proof -
  have 1: "CHR '':'' \<notin> set ''upstream''" "CHR ''@'' \<notin> set ''upstream''"
    "CHR ''@'' \<notin> set ''ftp://host:21''" "types (lower ''upstream'') = Some UpstreamMode"
    by (simp_all add: split_upstream_example(4))
  have "parse rs ProxyMode (''upstream'' @ CHR '':'' # ''ftp://host:21'') =
          construct rs UpstreamMode (''upstream'' @ CHR '':'' # ''ftp://host:21'')
            ''ftp://host:21'' None None"
    using 1 by (rule parse_without_listen)
  then show ?thesis using assms by (simp add: construct_def upstream_post_init_def)
qed

lemma resolve_ftp_example: "resolve ''ftp://host:21'' ''http'' = Inr (''ftp'', (''host'', 21))"
  by (simp add: resolve_eval)

text \<open>
  C7. The Upstream validator gives its data to the resolver with the default scheme
  \<open>http\<close>, the Reverse validator with the default scheme \<open>https\<close>; a failure of the
  resolver is passed on. A resolved scheme outside \<open>http\<close>, \<open>https\<close> for Upstream,
  outside \<open>http\<close>, \<open>https\<close>, \<open>tcp\<close>, \<open>tls\<close> for Reverse, fails with
  \<open>InvalidScheme\<close>; otherwise scheme and address are stored as the resolver returned
  them. A spec \<open>upstream:\<close> or \<open>reverse:\<close> followed by data without \<open>@\<close> runs the
  validator on that data. \<open>upstream:ftp://host:21\<close> fails with \<open>InvalidScheme\<close> when
  the resolver reads the scheme \<open>ftp\<close>, as the resolver of the specification does.
\<close>

theorem upstream_reverse_schemes:
  "(rs (data a) ''http'' = Inr (sa, aa) \<and> sa \<notin> {''http'', ''https''} \<longrightarrow>
      upstream_post_init rs a = Inl (InvalidScheme UpstreamMode)) \<and>
   (rs (data b) ''http'' = Inr (sb, ab) \<and> sb \<in> {''http'', ''https''} \<longrightarrow>
      upstream_post_init rs b = Inr (b\<lparr>scheme := Some sb, address := Some ab\<rparr>)) \<and>
   (rs (data c) ''https'' = Inr (sc, ac) \<and> sc \<notin> {''http'', ''https'', ''tcp'', ''tls''} \<longrightarrow>
      reverse_post_init rs c = Inl (InvalidScheme ReverseMode)) \<and>
   (rs (data d) ''https'' = Inr (sd, ad) \<and> sd \<in> {''http'', ''https'', ''tcp'', ''tls''} \<longrightarrow>
      reverse_post_init rs d = Inr (d\<lparr>scheme := Some sd, address := Some ad\<rparr>)) \<and>
   (rs (data e) ''http'' = Inl msg \<longrightarrow> upstream_post_init rs e = Inl (ResolverError msg)) \<and>
   (rs (data f) ''https'' = Inl msg' \<longrightarrow> reverse_post_init rs f = Inl (ResolverError msg')) \<and>
   (CHR ''@'' \<notin> set x \<longrightarrow>
      parse rs ProxyMode (''upstream:'' @ x) =
        upstream_post_init rs
          \<lparr>mode_cls = UpstreamMode, full_spec = ''upstream:'' @ x, data = x,
           custom_listen_host = None, custom_listen_port = None, scheme = None,
           address = None\<rparr>) \<and>
   (CHR ''@'' \<notin> set y \<longrightarrow>
      parse rs ProxyMode (''reverse:'' @ y) =
        reverse_post_init rs
          \<lparr>mode_cls = ReverseMode, full_spec = ''reverse:'' @ y, data = y,
           custom_listen_host = None, custom_listen_port = None, scheme = None,
           address = None\<rparr>) \<and>
   (rs ''ftp://host:21'' ''http'' = Inr (''ftp'', af) \<longrightarrow>
      parse rs ProxyMode ''upstream:ftp://host:21'' = Inl (InvalidScheme UpstreamMode)) \<and>
   parse resolve ProxyMode ''upstream:ftp://host:21'' = Inl (InvalidScheme UpstreamMode)"
proof (intro conjI impI)
  assume "rs (data a) ''http'' = Inr (sa, aa) \<and> sa \<notin> {''http'', ''https''}"
  then show "upstream_post_init rs a = Inl (InvalidScheme UpstreamMode)"
    by (simp add: upstream_post_init_def)
next
  assume "rs (data b) ''http'' = Inr (sb, ab) \<and> sb \<in> {''http'', ''https''}"
  then show "upstream_post_init rs b = Inr (b\<lparr>scheme := Some sb, address := Some ab\<rparr>)"
    by (auto simp: upstream_post_init_def)
next
  assume "rs (data c) ''https'' = Inr (sc, ac) \<and> sc \<notin> {''http'', ''https'', ''tcp'', ''tls''}"
  then show "reverse_post_init rs c = Inl (InvalidScheme ReverseMode)"
    by (simp add: reverse_post_init_def)
next
  assume "rs (data d) ''https'' = Inr (sd, ad) \<and> sd \<in> {''http'', ''https'', ''tcp'', ''tls''}"
  then show "reverse_post_init rs d = Inr (d\<lparr>scheme := Some sd, address := Some ad\<rparr>)"
    by (auto simp: reverse_post_init_def)
next
  assume "rs (data e) ''http'' = Inl msg"
  then show "upstream_post_init rs e = Inl (ResolverError msg)"
    by (simp add: upstream_post_init_def)
next
  assume "rs (data f) ''https'' = Inl msg'"
  then show "reverse_post_init rs f = Inl (ResolverError msg')"
    by (simp add: reverse_post_init_def)
next
  assume "CHR ''@'' \<notin> set x"
  from parse_without_listen[where m = "''upstream''" and d = x and c = UpstreamMode and rs = rs,
      OF _ _ this]
  show "parse rs ProxyMode (''upstream:'' @ x) =
        upstream_post_init rs
          \<lparr>mode_cls = UpstreamMode, full_spec = ''upstream:'' @ x, data = x,
           custom_listen_host = None, custom_listen_port = None, scheme = None,
           address = None\<rparr>"
    by (simp add: split_upstream_example(4) construct_def)
next
  assume "CHR ''@'' \<notin> set y"
  have "types (lower ''reverse'') = Some ReverseMode" by (simp add: parse_eval)
  with parse_without_listen[where m = "''reverse''" and d = y and c = ReverseMode and rs = rs,
      OF _ _ \<open>CHR ''@'' \<notin> set y\<close>]
  show "parse rs ProxyMode (''reverse:'' @ y) =
        reverse_post_init rs
          \<lparr>mode_cls = ReverseMode, full_spec = ''reverse:'' @ y, data = y,
           custom_listen_host = None, custom_listen_port = None, scheme = None,
           address = None\<rparr>"
    by (simp add: construct_def)
next
  assume "rs ''ftp://host:21'' ''http'' = Inr (''ftp'', af)"
  then show "parse rs ProxyMode ''upstream:ftp://host:21'' = Inl (InvalidScheme UpstreamMode)"
    by (rule parse_ftp_example)
next
  show "parse resolve ProxyMode ''upstream:ftp://host:21'' = Inl (InvalidScheme UpstreamMode)"
    using resolve_ftp_example by (rule parse_ftp_example)
qed

theorem upstream_reverse_schemes_witness:
  "resolve ''ftp://host:21'' ''http'' = Inr (''ftp'', (''host'', 21)) \<and>
   upstream_post_init resolve
     \<lparr>mode_cls = UpstreamMode, full_spec = ''upstream:ftp://host:21'', data = ''ftp://host:21'',
      custom_listen_host = None, custom_listen_port = None, scheme = None, address = None\<rparr> =
   Inl (InvalidScheme UpstreamMode) \<and>
   resolve ''proxy.local:3128'' ''http'' = Inr (''http'', (''proxy.local'', 3128)) \<and>
   CHR ''@'' \<notin> set ''proxy.local:3128'' \<and>
   parse resolve ProxyMode ''upstream:proxy.local:3128'' =
   Inr \<lparr>mode_cls = UpstreamMode, full_spec = ''upstream:proxy.local:3128'',
        data = ''proxy.local:3128'', custom_listen_host = None, custom_listen_port = None,
        scheme = Some ''http'', address = Some (''proxy.local'', 3128)\<rparr> \<and>
   resolve ''udp://example.com:53'' ''https'' = Inr (''udp'', (''example.com'', 53)) \<and>
   reverse_post_init resolve
     \<lparr>mode_cls = ReverseMode, full_spec = ''reverse:udp://example.com:53'',
      data = ''udp://example.com:53'',
      custom_listen_host = None, custom_listen_port = None, scheme = None, address = None\<rparr> =
   Inl (InvalidScheme ReverseMode) \<and>
   resolve ''example.com:443'' ''https'' = Inr (''https'', (''example.com'', 443)) \<and>
   CHR ''@'' \<notin> set ''example.com:443'' \<and>
   parse resolve ProxyMode ''reverse:example.com:443'' =
   Inr \<lparr>mode_cls = ReverseMode, full_spec = ''reverse:example.com:443'',
        data = ''example.com:443'', custom_listen_host = None, custom_listen_port = None,
        scheme = Some ''https'', address = Some (''example.com'', 443)\<rparr> \<and>
   resolve ''example.com'' ''http'' = Inl ''not of the form [scheme://]host:port'' \<and>
   parse resolve ProxyMode ''upstream:example.com'' =
   Inl (ResolverError ''not of the form [scheme://]host:port'')"
proof -
  let ?a = "\<lparr>mode_cls = UpstreamMode, full_spec = ''upstream:ftp://host:21'',
      data = ''ftp://host:21'',
      custom_listen_host = None, custom_listen_port = None, scheme = None, address = None\<rparr>"
  let ?b = "\<lparr>mode_cls = UpstreamMode, full_spec = ''upstream:proxy.local:3128'',
      data = ''proxy.local:3128'',
      custom_listen_host = None, custom_listen_port = None, scheme = None, address = None\<rparr>"
  let ?c = "\<lparr>mode_cls = ReverseMode, full_spec = ''reverse:udp://example.com:53'',
      data = ''udp://example.com:53'',
      custom_listen_host = None, custom_listen_port = None, scheme = None, address = None\<rparr>"
  let ?d = "\<lparr>mode_cls = ReverseMode, full_spec = ''reverse:example.com:443'',
      data = ''example.com:443'',
      custom_listen_host = None, custom_listen_port = None, scheme = None, address = None\<rparr>"
  let ?e = "\<lparr>mode_cls = UpstreamMode, full_spec = ''upstream:example.com'',
      data = ''example.com'',
      custom_listen_host = None, custom_listen_port = None, scheme = None, address = None\<rparr>"
  have r: "resolve ''ftp://host:21'' ''http'' = Inr (''ftp'', (''host'', 21))"
    "resolve ''proxy.local:3128'' ''http'' = Inr (''http'', (''proxy.local'', 3128))"
    "resolve ''udp://example.com:53'' ''https'' = Inr (''udp'', (''example.com'', 53))"
    "resolve ''example.com:443'' ''https'' = Inr (''https'', (''example.com'', 443))"
    "resolve ''example.com'' ''http'' = Inl ''not of the form [scheme://]host:port''"
    by (simp_all add: resolve_eval)
  note t = upstream_reverse_schemes[where rs = resolve and a = ?a and sa = "''ftp''"
      and aa = "(''host'', 21)" and b = ?b and sb = "''http''" and ab = "(''proxy.local'', 3128)"
      and c = ?c and sc = "''udp''" and ac = "(''example.com'', 53)"
      and d = ?d and sd = "''https''" and ad = "(''example.com'', 443)"
      and e = ?e and msg = "''not of the form [scheme://]host:port''"]
  have 1: "upstream_post_init resolve ?a = Inl (InvalidScheme UpstreamMode)"
    using t r(1) by simp
  have 2: "upstream_post_init resolve ?b =
             Inr (?b\<lparr>scheme := Some ''http'', address := Some (''proxy.local'', 3128)\<rparr>)"
    using t r(2) by simp
  have 3: "reverse_post_init resolve ?c = Inl (InvalidScheme ReverseMode)"
    using t r(3) by simp
  have 4: "reverse_post_init resolve ?d =
             Inr (?d\<lparr>scheme := Some ''https'', address := Some (''example.com'', 443)\<rparr>)"
    using t r(4) by simp
  have 5: "upstream_post_init resolve ?e =
             Inl (ResolverError ''not of the form [scheme://]host:port'')"
    using t r(5) by simp
  have 6: "parse resolve ProxyMode ''upstream:proxy.local:3128'' = upstream_post_init resolve ?b"
    using t[where x = "''proxy.local:3128''"] by simp
  have 7: "parse resolve ProxyMode ''reverse:example.com:443'' = reverse_post_init resolve ?d"
    using t[where y = "''example.com:443''"] by simp
  have 8: "parse resolve ProxyMode ''upstream:example.com'' = upstream_post_init resolve ?e"
    using t[where x = "''example.com''"] by simp
  show ?thesis
    unfolding 6 7 8 using 1 2 3 4 5 r by simp
qed

section \<open>Identity of cached instances\<close>

lemma consistent_value:
  "consistent rs st \<Longrightarrow> entries st (c, w, x) = Some r \<Longrightarrow> parse rs c x = Inr (snd r)"
  unfolding consistent_def by (cases r) auto

lemma consistent_key:
  assumes "consistent rs st" and "entries st k = Some r" and "entries st k' = Some r'"
    and "fst r = fst r'"
  shows "k = k'"
proof -
  obtain n i where r: "r = (n, i)" by (cases r)
  obtain n' i' where r': "r' = (n', i')" by (cases r')
  from assms(4) r r' have "n' = n" by simp
  with assms(1,2,3) r r' show ?thesis unfolding consistent_def by blast
qed

text \<open>
  C3. As stated the claim fails: the cache key holds the class on which \<open>parse\<close> is
  called and the way the spec is passed. After \<open>ProxyMode.parse("regular")\<close> the call
  \<open>RegularMode.parse("regular")\<close> finds no entry, runs the parser again and creates a
  second instance, and so does the call \<open>ProxyMode.parse(spec="regular")\<close>.
\<close>

theorem parse_cache_identity_counterexample:
  "fst (cached_parse resolve ProxyMode Positional ''regular'' empty_cache) =
     Inr (0, \<lparr>mode_cls = RegularMode, full_spec = ''regular'', data = [],
              custom_listen_host = None, custom_listen_port = None,
              scheme = None, address = None\<rparr>) \<and>
   fst (cached_parse resolve (Sub RegularMode) Positional ''regular''
         (snd (cached_parse resolve ProxyMode Positional ''regular'' empty_cache))) =
     Inr (1, \<lparr>mode_cls = RegularMode, full_spec = ''regular'', data = [],
              custom_listen_host = None, custom_listen_port = None,
              scheme = None, address = None\<rparr>) \<and>
   fst (cached_parse resolve ProxyMode Keyword ''regular''
         (snd (cached_parse resolve ProxyMode Positional ''regular'' empty_cache))) =
     Inr (1, \<lparr>mode_cls = RegularMode, full_spec = ''regular'', data = [],
              custom_listen_host = None, custom_listen_port = None,
              scheme = None, address = None\<rparr>) \<and>
   created (snd (cached_parse resolve ProxyMode Positional ''regular'' empty_cache)) = 1 \<and>
   created (snd (cached_parse resolve (Sub RegularMode) Positional ''regular''
         (snd (cached_parse resolve ProxyMode Positional ''regular'' empty_cache)))) = 2 \<and>
   created (snd (cached_parse resolve ProxyMode Keyword ''regular''
         (snd (cached_parse resolve ProxyMode Positional ''regular'' empty_cache)))) = 2"
proof -
  have p: "parse resolve cls ''regular'' =
     (if issubclass RegularMode cls
      then Inr \<lparr>mode_cls = RegularMode, full_spec = ''regular'', data = [],
              custom_listen_host = None, custom_listen_port = None,
              scheme = None, address = None\<rparr>
      else Inl (WrongModeCategory ''regular'' cls))" for cls
    by (simp add: parse_eval)
  show ?thesis by (simp add: cached_parse_def empty_cache_def p)
qed

text \<open>
  C3, amended. The cache is keyed by the class on which \<open>parse\<close> is called, the way
  the spec is passed (positional or keyword) and the exact spec string. Once a call has
  returned an instance, every later call with the same class, the same way of passing and
  the same string returns that very instance and leaves the cache as it is, so nothing is
  validated or created again. A later successful call returns the same instance only for
  the same class, the same way of passing and the same string; for the same string
  through another entry point or passed the other way it returns an instance of equal
  value.
\<close>

theorem parse_cache_identity:
  assumes "st = run_calls rs cs empty_cache"
    and "cached_parse rs cls how s st = (Inr r, st1)"
    and "st2 = run_calls rs cs' st1"
  shows "cached_parse rs cls how s st2 = (Inr r, st2) \<and>
         (\<forall>cls' how' s' r' st3. cached_parse rs cls' how' s' st2 = (Inr r', st3) \<longrightarrow>
            (fst r' = fst r \<longleftrightarrow> cls' = cls \<and> how' = how \<and> s' = s) \<and>
            (s' = s \<longrightarrow> snd r' = snd r \<and> dataclass_eq (snd r') (snd r)))"
proof -
  have c0: "consistent rs st" unfolding assms(1) using consistent_empty
    by (rule run_calls_consistent)
  have s1: "st1 = snd (cached_parse rs cls how s st)" using assms(2) by simp
  have c1: "consistent rs st1" unfolding s1 using c0 by (rule cached_parse_consistent)
  have e1: "entries st1 (cls, how, s) = Some r" using assms(2) by (rule cached_parse_stores)
  have c2: "consistent rs st2" unfolding assms(3) using c1 by (rule run_calls_consistent)
  have e2: "entries st2 (cls, how, s) = Some r" unfolding assms(3) using e1 by (rule run_calls_keeps)
  have hit: "cached_parse rs cls how s st2 = (Inr r, st2)" using e2 by (rule cached_parse_hit)
  have other: "(fst r' = fst r \<longleftrightarrow> cls' = cls \<and> how' = how \<and> s' = s) \<and>
               (s' = s \<longrightarrow> snd r' = snd r \<and> dataclass_eq (snd r') (snd r))"
    if call: "cached_parse rs cls' how' s' st2 = (Inr r', st3)" for cls' how' s' r' st3
  proof -
    have s3: "st3 = snd (cached_parse rs cls' how' s' st2)" using call by simp
    have c3: "consistent rs st3" unfolding s3 using c2 by (rule cached_parse_consistent)
    have e3: "entries st3 (cls', how', s') = Some r'" using call by (rule cached_parse_stores)
    have k3: "entries st3 (cls, how, s) = Some r" unfolding s3 using e2 by (rule cached_parse_keeps)
    have same: "(cls', how', s') = (cls, how, s)" if "fst r' = fst r"
      using c3 e3 k3 that by (rule consistent_key)
    have again: "r' = r" if "cls' = cls \<and> how' = how \<and> s' = s"
      using that call hit by simp
    have val: "snd r' = snd r" if "s' = s"
    proof -
      from consistent_value[OF c3 e3] that have "parse rs cls' s = Inr (snd r')" by simp
      moreover from consistent_value[OF c3 k3] have "parse rs cls s = Inr (snd r)" .
      ultimately show ?thesis by (rule parse_class_independent)
    qed
    show ?thesis
    proof (intro conjI impI)
      show "fst r' = fst r \<longleftrightarrow> cls' = cls \<and> how' = how \<and> s' = s"
      proof
        assume "fst r' = fst r"
        from same[OF this] show "cls' = cls \<and> how' = how \<and> s' = s" by simp
      next
        assume "cls' = cls \<and> how' = how \<and> s' = s"
        from again[OF this] show "fst r' = fst r" by simp
      qed
    next
      assume "s' = s"
      from val[OF this] show "snd r' = snd r" .
    next
      assume "s' = s"
      from val[OF this] show "dataclass_eq (snd r') (snd r)" by (simp add: dataclass_eq_def)
    qed
  qed
  show ?thesis
  proof (rule conjI)
    show "cached_parse rs cls how s st2 = (Inr r, st2)" by (rule hit)
  next
    show "\<forall>cls' how' s' r' st3. cached_parse rs cls' how' s' st2 = (Inr r', st3) \<longrightarrow>
            (fst r' = fst r \<longleftrightarrow> cls' = cls \<and> how' = how \<and> s' = s) \<and>
            (s' = s \<longrightarrow> snd r' = snd r \<and> dataclass_eq (snd r') (snd r))"
    proof (intro allI impI)
      fix cls' how' s' r' st3
      assume "cached_parse rs cls' how' s' st2 = (Inr r', st3)"
      then show "(fst r' = fst r \<longleftrightarrow> cls' = cls \<and> how' = how \<and> s' = s) \<and>
            (s' = s \<longrightarrow> snd r' = snd r \<and> dataclass_eq (snd r') (snd r))"
        by (rule other)
    qed
  qed
qed

theorem parse_cache_identity_witness:
  "cached_parse resolve ProxyMode Positional ''regular'' (run_calls resolve [] empty_cache) =
     (Inr (0, \<lparr>mode_cls = RegularMode, full_spec = ''regular'', data = [],
              custom_listen_host = None, custom_listen_port = None,
              scheme = None, address = None\<rparr>),
      snd (cached_parse resolve ProxyMode Positional ''regular'' empty_cache)) \<and>
   cached_parse resolve ProxyMode Positional ''regular''
     (run_calls resolve [(Sub RegularMode, Positional, ''regular''), (ProxyMode, Keyword, ''regular'')]
        (snd (cached_parse resolve ProxyMode Positional ''regular'' empty_cache))) =
     (Inr (0, \<lparr>mode_cls = RegularMode, full_spec = ''regular'', data = [],
              custom_listen_host = None, custom_listen_port = None,
              scheme = None, address = None\<rparr>),
      run_calls resolve [(Sub RegularMode, Positional, ''regular''), (ProxyMode, Keyword, ''regular'')]
        (snd (cached_parse resolve ProxyMode Positional ''regular'' empty_cache))) \<and>
   fst (cached_parse resolve (Sub RegularMode) Positional ''regular''
     (run_calls resolve [(Sub RegularMode, Positional, ''regular''), (ProxyMode, Keyword, ''regular'')]
        (snd (cached_parse resolve ProxyMode Positional ''regular'' empty_cache)))) =
     Inr (1, \<lparr>mode_cls = RegularMode, full_spec = ''regular'', data = [],
              custom_listen_host = None, custom_listen_port = None,
              scheme = None, address = None\<rparr>) \<and>
   fst (cached_parse resolve ProxyMode Keyword ''regular''
     (run_calls resolve [(Sub RegularMode, Positional, ''regular''), (ProxyMode, Keyword, ''regular'')]
        (snd (cached_parse resolve ProxyMode Positional ''regular'' empty_cache)))) =
     Inr (2, \<lparr>mode_cls = RegularMode, full_spec = ''regular'', data = [],
              custom_listen_host = None, custom_listen_port = None,
              scheme = None, address = None\<rparr>)"
proof -
  let ?i = "\<lparr>mode_cls = RegularMode, full_spec = ''regular'', data = [],
              custom_listen_host = None, custom_listen_port = None,
              scheme = None, address = None\<rparr>"
  let ?st1 = "snd (cached_parse resolve ProxyMode Positional ''regular'' empty_cache)"
  let ?st2 = "run_calls resolve [(Sub RegularMode, Positional, ''regular''), (ProxyMode, Keyword, ''regular'')] ?st1"
  have p: "parse resolve ProxyMode ''regular'' = Inr ?i"
    "parse resolve (Sub RegularMode) ''regular'' = Inr ?i"
    by (simp_all add: parse_eval)
  have a: "run_calls resolve [] empty_cache = run_calls resolve [] empty_cache" by simp
  have b: "cached_parse resolve ProxyMode Positional ''regular'' (run_calls resolve [] empty_cache) =
             (Inr (0, ?i), ?st1)"
    by (simp add: cached_parse_def empty_cache_def p)
  have c: "?st2 = ?st2" by simp
  from parse_cache_identity[OF a b c]
  have d: "cached_parse resolve ProxyMode Positional ''regular'' ?st2 = (Inr (0, ?i), ?st2)"
    by (rule conjunct1)
  have e: "fst (cached_parse resolve (Sub RegularMode) Positional ''regular'' ?st2) = Inr (1, ?i)"
    by (simp add: cached_parse_def empty_cache_def p)
  have f: "fst (cached_parse resolve ProxyMode Keyword ''regular'' ?st2) = Inr (2, ?i)"
    by (simp add: cached_parse_def empty_cache_def p)
  from b d e f show ?thesis by (intro conjI)
qed

end
